theory Spec2Isabelle
  imports Complex_Main "HOL-Library.Multiset"
begin

section \<open>Data model\<close>

text \<open>
  The module \<^verbatim>\<open>git_zevent_place_fun_async.py\<close> fetches the level of every pixel of
  a sector of the 700x700 canvas. A pixel is a pair \<open>(x, y)\<close> of Python integers, a sector a
  4-tuple \<open>(x1, y1, x2, y2)\<close>. Python integers are unbounded, hence \<open>int\<close>.
\<close>

type_synonym pixel = "int \<times> int"
type_synonym sector = "int \<times> int \<times> int \<times> int"

text \<open>The exceptions the modelled statements can raise.\<close>

datatype exn =
    NameError string
  | ValueError
  | IndexError
  | OverflowError
  | ZeroDivisionError

text \<open>
  The JSON body of one request (lines 76-80). The dictionary has three keys; the nested
  \<^verbatim>\<open>variables.pixel\<close> dictionary is flattened into the two fields \<open>pixel_x\<close> and \<open>pixel_y\<close>.
\<close>

record payload =
  operationName :: string
  pixel_x :: int
  pixel_y :: int
  query :: string

text \<open>
  What one \<^verbatim>\<open>session.post\<close> followed by \<^verbatim>\<open>response.json()\<close> and
  \<^verbatim>\<open>int(r['data']['getPixelLevel']['level'])\<close> yields: either some exception (with its
  text) is raised on the way, or the integer level is obtained. The remote service is a
  function of the request body and of the number of requests the same call has already sent.
\<close>

datatype response = Fails string | Level int

type_synonym service = "payload \<Rightarrow> nat \<Rightarrow> response"

text \<open>
  A NumPy array of two dimensions with \<^verbatim>\<open>dtype=np.int_\<close>: its shape and its rows.
  \<^verbatim>\<open>np.int_\<close> is the C \<^verbatim>\<open>long\<close> of the platform, taken here as 64 bits, signed.
\<close>

record ndarray =
  nrows :: nat
  ncols :: nat
  rows :: "int list list"

text \<open>
  Everything the program does that can be seen from outside, in the order it happens:
  the requests sent, the lines printed, the batches run and the calls into matplotlib.
  The progress bar of \<^verbatim>\<open>tqdm\<close> is left out.
\<close>

datatype event =
    Post payload                 \<comment> \<open>line 84: \<^verbatim>\<open>session.post(file, json=payload)\<close>\<close>
  | PrintAuth                    \<comment> \<open>line 60: the message asking for the authorization key\<close>
  | PrintFailed int int string   \<comment> \<open>line 90: \<^verbatim>\<open>Pixel (x,y): failed ... times. Error: 'e'\<close>\<close>
  | Sleep                        \<comment> \<open>line 91: \<^verbatim>\<open>time.sleep(.1)\<close>\<close>
  | PrintProblem int int int     \<comment> \<open>line 116: \<^verbatim>\<open>Problem on pixel '(x,y)': level is 'level'\<close>\<close>
  | PrintInvalid sector          \<comment> \<open>line 134: \<^verbatim>\<open>Invalid sector '...': should be inside ...\<close>\<close>
  | PrintSending int int         \<comment> \<open>line 158: \<^verbatim>\<open>Sending h*w requests in num_batches batches\<close>\<close>
  | AsyncioRun sector            \<comment> \<open>line 164: \<^verbatim>\<open>asyncio.run(get_level_data_concurrent(sector_batch))\<close>\<close>
  | Imshow ndarray "int \<times> int \<times> int \<times> int"  \<comment> \<open>line 182, with the \<^verbatim>\<open>extent\<close>\<close>
  | Colorbar                     \<comment> \<open>line 183\<close>
  | Title sector int             \<comment> \<open>line 184: the sector bounds and the maximum level\<close>
  | Show                         \<comment> \<open>line 185\<close>

section \<open>Credentials\<close>

text \<open>
  \<^verbatim>\<open>check_auth\<close> (lines 52-63): the key must be in the dictionary and its value must be
  truthy; a string is truthy when it is not empty.
\<close>

definition check_auth :: "(string \<rightharpoonup> string) \<Rightarrow> bool \<times> event list" where
  "check_auth hdrs =
     (if hdrs ''authorization'' = None \<or> hdrs ''authorization'' = Some ''''
      then (False, [PrintAuth])
      else (True, []))"

text \<open>The dictionary \<^verbatim>\<open>headers\<close> as the module defines it (lines 45-50).\<close>

definition headers :: "string \<rightharpoonup> string" where
  "headers = [''Host'' \<mapsto> ''place-api.zevent.fr'',
              ''Accept-Encoding'' \<mapsto> ''gzip, deflate, br'',
              ''content-type'' \<mapsto> ''application/json'',
              ''authorization'' \<mapsto> '''']"

section \<open>Fetching one pixel\<close>

text \<open>
  Name resolution inside \<^verbatim>\<open>fetch_pixel_level\<close>: a name is looked up among the local
  variables of the function, then among the names the module binds at top level (its
  imports, lines 32-40, its assignments and its functions). No builtin is called \<^verbatim>\<open>n\<close>
  or \<^verbatim>\<open>time\<close>. A name found in neither raises \<^verbatim>\<open>NameError\<close>.
\<close>

definition fetch_locals :: "string list" where
  "fetch_locals = [''pixel'', ''session'', ''x'', ''y'', ''payload'', ''tries'',
                   ''response'', ''r'', ''e'']"

definition module_globals :: "string list" where
  "module_globals = [''requests'', ''brotli'', ''json'', ''np'', ''plt'', ''LogNorm'',
                     ''asyncio'', ''aiohttp'', ''tqdm'', ''base_url'', ''file'', ''headers'',
                     ''check_auth'', ''fetch_pixel_level'', ''get_level_data_concurrent'',
                     ''is_valid'', ''get_level_data'', ''plot_level_map_from_data'',
                     ''plot_level_map'', ''sector'']"

definition name_bound :: "string \<Rightarrow> bool" where
  "name_bound nm = (nm \<in> set (fetch_locals @ module_globals))"

definition make_payload :: "pixel \<Rightarrow> payload" where
  "make_payload pixel = (case pixel of (x, y) \<Rightarrow>
     \<lparr> operationName = ''getPixelLevel'',
       pixel_x = y,
       pixel_y = x,
       query = ''query getPixelLevel($pixel: PixelUpgradeInput!) {getPixelLevel(pixel: $pixel) {x y level coloredBy upgradedBy __typename}}'' \<rparr>)"

text \<open>How one pass through the body of \<^verbatim>\<open>while True\<close> ends.\<close>

datatype 'a outcome = Returned 'a | Raised exn | Again

text \<open>Line 91, \<^verbatim>\<open>time.sleep(.1)\<close>, the last statement of the handler.\<close>

definition time_sleep :: "(int \<times> int \<times> int) outcome \<times> event list" where
  "time_sleep = (if name_bound ''time'' then (Again, [Sleep])
                 else (Raised (NameError ''time''), []))"

text \<open>
  Lines 82-91, the \<open>k\<close>-th pass through the loop body (\<open>k\<close> requests were sent before).
  \<^verbatim>\<open>tries\<close> is set to 0 at the top of every pass. An exception raised inside the
  \<^verbatim>\<open>except\<close> block is not caught by the \<^verbatim>\<open>try\<close> it belongs to: it leaves the function.
\<close>

definition fetch_attempt ::
  "service \<Rightarrow> pixel \<Rightarrow> nat \<Rightarrow> (int \<times> int \<times> int) outcome \<times> event list" where
  "fetch_attempt svc pixel k = (case pixel of (x, y) \<Rightarrow>
     let payload = make_payload pixel;
         tries = (0::int)
     in (case svc payload k of
           Level l \<Rightarrow> (Returned (x, y, l), [Post payload])
         | Fails e \<Rightarrow>
             let tries = tries + 1 in
             if tries mod 10 = 0 then
               (if name_bound ''n''
                then (case time_sleep of (out, t) \<Rightarrow> (out, [Post payload, PrintFailed x y e] @ t))
                else (Raised (NameError ''n''), [Post payload]))
             else (case time_sleep of (out, t) \<Rightarrow> (out, Post payload # t))))"

text \<open>
  The loop \<^verbatim>\<open>while True\<close>. The events of the passes so far are carried in \<open>tr\<close>.
\<close>

function fetch_loop ::
  "service \<Rightarrow> pixel \<Rightarrow> nat \<Rightarrow> event list \<Rightarrow> (exn + int \<times> int \<times> int) \<times> event list" where
  "fetch_loop svc pixel k tr =
     (case fetch_attempt svc pixel k of
        (Returned v, t) \<Rightarrow> (Inr v, tr @ t)
      | (Raised e, t) \<Rightarrow> (Inl e, tr @ t)
      | (Again, t) \<Rightarrow> fetch_loop svc pixel (Suc k) (tr @ t))"
  by pat_completeness auto
termination
proof (relation "{}")
  show "wf {}" by simp
next
  fix svc :: service and pixel :: pixel and k :: nat and tr :: "event list"
    and a :: "(int \<times> int \<times> int) outcome" and t :: "event list"
  assume call: "(a, t) = fetch_attempt svc pixel k" and again: "a = Again"
  have "fst (fetch_attempt svc pixel k) \<noteq> Again"
    by (cases pixel)
       (simp add: fetch_attempt_def time_sleep_def name_bound_def fetch_locals_def
          module_globals_def Let_def split: response.split)
  with call again have False
    by (metis fst_conv)
  then show "((svc, pixel, Suc k, tr @ t), (svc, pixel, k, tr)) \<in> {}" ..
qed

definition fetch_pixel_level ::
  "service \<Rightarrow> pixel \<Rightarrow> (exn + int \<times> int \<times> int) \<times> event list" where
  "fetch_pixel_level svc pixel = fetch_loop svc pixel 0 []"

section \<open>The NumPy operations the module uses\<close>

text \<open>
  NumPy holds every dimension of an array in a C integer of 64 bits (\<^verbatim>\<open>npy_intp\<close>), and
  the size of the array in bytes in another one: the size of an element, 8 bytes for
  \<^verbatim>\<open>np.int_\<close> and for \<^verbatim>\<open>np.float64\<close>, times the dimensions that are not 0. An array
  whose size in bytes does not fit cannot be created, whether memory is allocated for it
  or not.
\<close>

definition intp_max :: int where
  "intp_max = 2 ^ 63 - 1"

definition nbytes :: "int \<Rightarrow> int \<Rightarrow> int" where
  "nbytes m n = 8 * (if m = 0 then 1 else m) * (if n = 0 then 1 else n)"

text \<open>
  \<^verbatim>\<open>np.zeros((h, w), dtype=np.int_)\<close>: a negative dimension, a dimension that does not
  fit \<^verbatim>\<open>npy_intp\<close> and a size in bytes that does not fit it raise \<^verbatim>\<open>ValueError\<close>. The
  machine is taken to have the memory for an array that passes these checks (it would
  raise \<^verbatim>\<open>MemoryError\<close> otherwise); the driver allocates at most 700 x 700 elements.
\<close>

definition np_zeros :: "int \<Rightarrow> int \<Rightarrow> exn + ndarray" where
  "np_zeros h w =
     (if h < 0 \<or> w < 0 \<or> intp_max < nbytes h w then Inl ValueError
      else Inr \<lparr> nrows = nat h, ncols = nat w,
                 rows = replicate (nat h) (replicate (nat w) 0) \<rparr>)"

text \<open>
  \<^verbatim>\<open>np.ndindex(m, n)\<close> iterates over the index pairs of an array of shape \<open>(m, n)\<close>,
  the last index changing fastest. It builds a view of that shape on a one-element array
  of \<^verbatim>\<open>np.float64\<close> (\<^verbatim>\<open>as_strided\<close>): a dimension that does not fit \<^verbatim>\<open>npy_intp\<close> raises
  \<^verbatim>\<open>OverflowError\<close> when the shape is read, then a negative dimension or a size in bytes
  that does not fit raises \<^verbatim>\<open>ValueError\<close>. The object has no \<^verbatim>\<open>__contains__\<close>, so
  \<^verbatim>\<open>in\<close> walks through the pairs and compares.
\<close>

definition ndindex :: "int \<Rightarrow> int \<Rightarrow> exn + (int \<times> int) list" where
  "ndindex m n =
     (if m < - intp_max - 1 \<or> intp_max < m \<or> n < - intp_max - 1 \<or> intp_max < n
      then Inl OverflowError
      else if m < 0 \<or> n < 0 \<or> intp_max < nbytes m n then Inl ValueError
      else Inr (List.product [0..m - 1] [0..n - 1]))"

text \<open>
  An index into a dimension of size \<open>n\<close>: a negative index counts from the end, and an
  index outside \<open>-n \<le> i < n\<close> raises \<^verbatim>\<open>IndexError\<close>.
\<close>

definition normalise_index :: "nat \<Rightarrow> int \<Rightarrow> exn + nat" where
  "normalise_index n i =
     (if i < - int n \<or> int n \<le> i then Inl IndexError
      else Inr (nat (if i < 0 then i + int n else i)))"

text \<open>
  \<^verbatim>\<open>data[i, j] = v\<close> for a Python integer \<open>v\<close>: a value that does not fit the element
  type raises \<^verbatim>\<open>OverflowError\<close>.
\<close>

definition setitem :: "ndarray \<Rightarrow> int \<Rightarrow> int \<Rightarrow> int \<Rightarrow> exn + ndarray" where
  "setitem data i j v =
     (case normalise_index (nrows data) i of
        Inl e \<Rightarrow> Inl e
      | Inr r \<Rightarrow>
          (case normalise_index (ncols data) j of
             Inl e \<Rightarrow> Inl e
           | Inr c \<Rightarrow>
               if v < - (2 ^ 63) \<or> 2 ^ 63 \<le> v then Inl OverflowError
               else Inr (data\<lparr> rows := (rows data)[r := (rows data ! r)[c := v]] \<rparr>)))"

text \<open>A bound of a slice over a dimension of size \<open>n\<close> is clipped, never an error.\<close>

definition slice_bound :: "nat \<Rightarrow> int \<Rightarrow> nat" where
  "slice_bound n i = (if i < 0 then nat (max 0 (i + int n)) else nat (min i (int n)))"

text \<open>
  \<^verbatim>\<open>data[:, a:b] = batch\<close>: the columns \<open>a\<close> to \<open>b\<close> (excluded) of every row are
  overwritten. A dimension of \<open>batch\<close> of size 1 is repeated (broadcasting); any other
  mismatch of the shapes raises \<^verbatim>\<open>ValueError\<close>.
\<close>

definition set_columns :: "ndarray \<Rightarrow> int \<Rightarrow> int \<Rightarrow> ndarray \<Rightarrow> exn + ndarray" where
  "set_columns data a b batch =
     (let lo = slice_bound (ncols data) a;
          hi = slice_bound (ncols data) b;
          width = hi - lo
      in if (nrows batch = nrows data \<or> nrows batch = 1)
            \<and> (ncols batch = width \<or> ncols batch = 1)
         then Inr (data\<lparr> rows :=
                map (\<lambda>i. take lo (rows data ! i)
                          @ map (\<lambda>j. rows batch ! (if nrows batch = 1 then 0 else i)
                                               ! (if ncols batch = 1 then 0 else j))
                                [0..<width]
                          @ drop (lo + width) (rows data ! i))
                    [0..<nrows data] \<rparr>)
         else Inl ValueError)"

text \<open>\<^verbatim>\<open>np.amax(data)\<close>: an array without elements raises \<^verbatim>\<open>ValueError\<close>.\<close>

definition np_amax :: "ndarray \<Rightarrow> exn + int" where
  "np_amax data =
     (if nrows data = 0 \<or> ncols data = 0 then Inl ValueError
      else Inr (Max (set (concat (rows data)))))"

text \<open>Python's \<^verbatim>\<open>a // b\<close> on integers rounds towards minus infinity, as \<open>div\<close> does.\<close>

definition floordiv :: "int \<Rightarrow> int \<Rightarrow> exn + int" where
  "floordiv a b = (if b = 0 then Inl ZeroDivisionError else Inr (a div b))"

text \<open>
  \<^verbatim>\<open>np.int_(np.ceil(a / b))\<close>: the quotient is a double. For the operands that reach
  it (at most 10000 in absolute value) a quotient that is not an integer is further from
  every integer than the rounding error, so the ceiling is the one of the exact quotient.
\<close>

definition ceil_truediv :: "int \<Rightarrow> int \<Rightarrow> exn + int" where
  "ceil_truediv a b =
     (if b = 0 then Inl ZeroDivisionError
      else Inr \<lceil>real_of_int a / real_of_int b\<rceil>)"

section \<open>Fetching a sector concurrently\<close>

text \<open>
  \<^verbatim>\<open>asyncio.gather\<close> (line 110) returns the results in the order of the coroutines it
  was given, whatever the order in which they complete, and raises the exception of a
  coroutine that fails. The coroutines are run here one after the other.
\<close>

fun gather :: "service \<Rightarrow> pixel list \<Rightarrow> (exn + (int \<times> int \<times> int) list) \<times> event list" where
  "gather svc [] = (Inr [], [])"
| "gather svc (p # ps) =
     (case fetch_pixel_level svc p of
        (Inl e, t) \<Rightarrow> (Inl e, t)
      | (Inr r, t) \<Rightarrow>
          (case gather svc ps of
             (Inl e, t') \<Rightarrow> (Inl e, t @ t')
           | (Inr rs, t') \<Rightarrow> (Inr (r # rs), t @ t')))"

text \<open>
  Lines 112-116, the loop that fills the array in. Whatever the assignment raises is
  caught, reported, and the loop goes on with the next result.
\<close>

fun fill_in :: "int \<Rightarrow> int \<Rightarrow> (int \<times> int \<times> int) list \<Rightarrow> ndarray \<Rightarrow> ndarray \<times> event list" where
  "fill_in x1 y1 [] data = (data, [])"
| "fill_in x1 y1 ((x, y, level) # rest) data =
     (case setitem data (x - x1) (y - y1) level of
        Inr data' \<Rightarrow> fill_in x1 y1 rest data'
      | Inl e \<Rightarrow>
          (case fill_in x1 y1 rest data of
             (d, t) \<Rightarrow> (d, PrintProblem x y level # t)))"

definition get_level_data_concurrent :: "service \<Rightarrow> sector \<Rightarrow> (exn + ndarray) \<times> event list" where
  "get_level_data_concurrent svc sector = (case sector of (x1, y1, x2, y2) \<Rightarrow>
     let h = x2 - x1; w = y2 - y1 in
     (case np_zeros h w of
        Inl e \<Rightarrow> (Inl e, [])
      | Inr data \<Rightarrow>
          (case ndindex h w of
             Inl e \<Rightarrow> (Inl e, [])
           | Inr idx \<Rightarrow>
               let pixels = map (\<lambda>(x, y). (x1 + x, y1 + y)) idx in
               (case gather svc pixels of
                  (Inl e, t) \<Rightarrow> (Inl e, t)
                | (Inr pixels_level_list, t) \<Rightarrow>
                    (case fill_in x1 y1 pixels_level_list data of
                       (d, t') \<Rightarrow> (Inr d, t @ t'))))))"

section \<open>The driver\<close>

text \<open>\<^verbatim>\<open>is_valid\<close> (lines 119-135). \<^verbatim>\<open>and\<close> evaluates its right operand only when
  the left one is true.\<close>

definition is_valid :: "sector \<Rightarrow> (exn + bool) \<times> event list" where
  "is_valid sector = (case sector of (x1, y1, x2, y2) \<Rightarrow>
     let max_x = 700; max_y = 700 in
     (case ndindex x2 y2 of
        Inl e \<Rightarrow> (Inl e, [])
      | Inr idx \<Rightarrow>
          if (x1, y1) \<in> set idx then
            (case ndindex (max_x + 1) (max_y + 1) of
               Inl e \<Rightarrow> (Inl e, [])
             | Inr canvas \<Rightarrow>
                 if (x2, y2) \<in> set canvas then (Inr True, [])
                 else (Inr False, [PrintInvalid sector]))
          else (Inr False, [PrintInvalid sector])))"

definition max_conc_req :: int where
  "max_conc_req = 10000"

text \<open>
  Lines 160-165: the loop over the batch indices. Each batch is fetched by
  \<^verbatim>\<open>asyncio.run\<close>, which returns only when the batch is complete, and is then copied
  into its columns of \<open>data\<close>.
\<close>

fun run_batches ::
  "service \<Rightarrow> sector \<Rightarrow> int \<Rightarrow> nat list \<Rightarrow> ndarray \<Rightarrow> (exn + ndarray) \<times> event list" where
  "run_batches svc sector num_col_batch [] data = (Inr data, [])"
| "run_batches svc sector num_col_batch (b # bs) data = (case sector of (x1, y1, x2, y2) \<Rightarrow>
     let y1b = y1 + int b * num_col_batch;
         y2b = min y2 (y1b + num_col_batch);
         sector_batch = (x1, y1b, x2, y2b)
     in (case get_level_data_concurrent svc sector_batch of
           (Inl e, t) \<Rightarrow> (Inl e, AsyncioRun sector_batch # t)
         | (Inr data_batch, t) \<Rightarrow>
             (case set_columns data (y1b - y1) (y2b - y1) data_batch of
                Inl e \<Rightarrow> (Inl e, AsyncioRun sector_batch # t)
              | Inr data' \<Rightarrow>
                  (case run_batches svc sector num_col_batch bs data' of
                     (res, t') \<Rightarrow> (res, AsyncioRun sector_batch # t @ t')))))"

text \<open>
  \<^verbatim>\<open>get_level_data\<close> (lines 137-166). The dictionary \<^verbatim>\<open>headers\<close> is a global of the
  module that the user is told to fill in; it is a parameter here.
\<close>

definition get_level_data ::
  "(string \<rightharpoonup> string) \<Rightarrow> service \<Rightarrow> sector \<Rightarrow> (exn + ndarray) \<times> event list" where
  "get_level_data hdrs svc sector =
     (case is_valid sector of
        (Inl e, t0) \<Rightarrow> (Inl e, t0)
      | (Inr False, t0) \<Rightarrow> (np_zeros 1 1, t0)
      | (Inr True, t0) \<Rightarrow> (case sector of (x1, y1, x2, y2) \<Rightarrow>
          let h = x2 - x1; w = y2 - y1 in
          (case floordiv max_conc_req h of
             Inl e \<Rightarrow> (Inl e, t0)
           | Inr num_col_batch \<Rightarrow>
               (case ceil_truediv w num_col_batch of
                  Inl e \<Rightarrow> (Inl e, t0)
                | Inr num_batches \<Rightarrow>
                    (case np_zeros h w of
                       Inl e \<Rightarrow> (Inl e, t0)
                     | Inr data \<Rightarrow>
                         (case check_auth hdrs of
                            (False, t1) \<Rightarrow> (Inr data, t0 @ t1)
                          | (True, t1) \<Rightarrow>
                              (case run_batches svc sector num_col_batch
                                      [0..<nat num_batches] data of
                                 (res, t2) \<Rightarrow>
                                   (res, t0 @ t1 @ PrintSending (h * w) num_batches # t2))))))))"

section \<open>The renderer\<close>

text \<open>\<^verbatim>\<open>plot_level_map_from_data\<close> (lines 168-185).\<close>

definition plot_level_map_from_data :: "ndarray \<Rightarrow> sector \<Rightarrow> (exn + unit) \<times> event list" where
  "plot_level_map_from_data data sector = (case sector of (x1, y1, x2, y2) \<Rightarrow>
     (case np_amax data of
        Inl e \<Rightarrow> (Inl e, [])
      | Inr max_level \<Rightarrow>
          if max_level > 0
          then (Inr (), [Imshow data (y1, y2, x2, x1), Colorbar, Title sector max_level, Show])
          else (Inr (), [])))"

section \<open>Observations and fixtures\<close>

text \<open>The requests among the events, and the batches among the events.\<close>

fun requests_sent :: "event list \<Rightarrow> payload list" where
  "requests_sent [] = []"
| "requests_sent (Post p # t) = p # requests_sent t"
| "requests_sent (_ # t) = requests_sent t"

fun batches_run :: "event list \<Rightarrow> sector list" where
  "batches_run [] = []"
| "batches_run (AsyncioRun s # t) = s # batches_run t"
| "batches_run (_ # t) = batches_run t"

text \<open>The array \<^verbatim>\<open>np.zeros((h, w), dtype=np.int_)\<close> when it exists.\<close>

definition zeros_array :: "int \<Rightarrow> int \<Rightarrow> ndarray" where
  "zeros_array h w = \<lparr> nrows = nat h, ncols = nat w,
                       rows = replicate (nat h) (replicate (nat w) 0) \<rparr>"


text \<open>
  Services for concrete runs: one whose first \<open>n\<close> responses to a request are errors and
  whose later ones are the level \<open>l\<close>, and the one of the example scenario of the
  specification, level \<open>x * 10 + y\<close> for the pixel \<open>(x, y)\<close> (the request carries \<open>x\<close>
  in its field \<open>pixel_y\<close>). And a header dictionary with a key filled in.
\<close>

definition flaky :: "nat \<Rightarrow> int \<Rightarrow> service" where
  "flaky n l p k = (if k < n then Fails ''timeout'' else Level l)"

definition mock_service :: service where
  "mock_service p k = Level (pixel_y p * 10 + pixel_x p)"

definition with_token :: "string \<rightharpoonup> string" where
  "with_token = headers(''authorization'' \<mapsto> ''Bearer abc'')"

section \<open>Notions used in the statements\<close>

text \<open>
  An array is well formed when its rows agree with its shape: \<open>nrows\<close> rows of
  \<open>ncols\<close> elements each.
\<close>

definition wf_array :: "ndarray \<Rightarrow> bool" where
  "wf_array a = (length (rows a) = nrows a \<and> (\<forall>r \<in> set (rows a). length r = ncols a))"

text \<open>The values that fit the element type of the array, a signed integer of 64 bits.\<close>

definition fits :: "int \<Rightarrow> bool" where
  "fits v = (- (2 ^ 63) \<le> v \<and> v < 2 ^ 63)"

text \<open>The array with the cell of row \<open>r\<close> and column \<open>c\<close> overwritten.\<close>

definition write_cell :: "ndarray \<Rightarrow> nat \<Rightarrow> nat \<Rightarrow> int \<Rightarrow> ndarray" where
  "write_cell data r c v = data\<lparr> rows := (rows data)[r := (rows data ! r)[c := v]] \<rparr>"

text \<open>
  What one pass of the loop of lines 112-116 does to the array: the assignment when it
  succeeds, nothing when it raises.
\<close>

definition put :: "int \<Rightarrow> int \<Rightarrow> int \<times> int \<times> int \<Rightarrow> ndarray \<Rightarrow> ndarray" where
  "put x1 y1 result data = (case result of (x, y, level) \<Rightarrow>
     (case setitem data (x - x1) (y - y1) level of Inr data' \<Rightarrow> data' | Inl e \<Rightarrow> data))"

text \<open>The coordinate of a result \<open>(x, y, level)\<close>.\<close>

definition coord :: "int \<times> int \<times> int \<Rightarrow> pixel" where
  "coord r = (fst r, fst (snd r))"

text \<open>The list \<^verbatim>\<open>pixels\<close> of line 107, for a sector whose sides are not negative.\<close>

definition batch_pixels :: "sector \<Rightarrow> pixel list" where
  "batch_pixels sector = (case sector of (x1, y1, x2, y2) \<Rightarrow>
     map (\<lambda>(x, y). (x1 + x, y1 + y)) (List.product [0..x2 - x1 - 1] [0..y2 - y1 - 1]))"

text \<open>The sector of the batch of index \<open>b\<close>, lines 161-163.\<close>

definition batch_sector :: "sector \<Rightarrow> int \<Rightarrow> nat \<Rightarrow> sector" where
  "batch_sector sector num_col_batch b = (case sector of (x1, y1, x2, y2) \<Rightarrow>
     (x1, y1 + int b * num_col_batch, x2, min y2 (y1 + int b * num_col_batch + num_col_batch)))"

text \<open>
  Two more fixtures: the level \<open>x * 10 + y\<close> that \<open>mock_service\<close> reports for the pixel
  \<open>(x, y)\<close>, and a service that reports the level \<open>2 ^ 63\<close> for every pixel.
\<close>

definition mock_level :: "pixel \<Rightarrow> int" where
  "mock_level p = fst p * 10 + snd p"

definition huge_level_service :: service where
  "huge_level_service p k = Level (2 ^ 63)"

section \<open>The fetcher\<close>

lemma name_unbound: "\<not> name_bound ''time''" "\<not> name_bound ''n''"
  by (simp_all add: name_bound_def fetch_locals_def module_globals_def)

lemma fetch_pixel_level_Level:
  "svc (make_payload (x, y)) 0 = Level l \<Longrightarrow>
   fetch_pixel_level svc (x, y) = (Inr (x, y, l), [Post (make_payload (x, y))])"
  by (simp add: fetch_pixel_level_def fetch_attempt_def)

lemma fetch_pixel_level_Fails:
  "svc (make_payload (x, y)) 0 = Fails e \<Longrightarrow>
   fetch_pixel_level svc (x, y) = (Inl (NameError ''time''), [Post (make_payload (x, y))])"
  by (simp add: fetch_pixel_level_def fetch_attempt_def time_sleep_def name_unbound)

lemma fetch_pixel_level_trace:
  "snd (fetch_pixel_level svc (x, y)) = [Post (make_payload (x, y))]"
  by (cases "svc (make_payload (x, y)) 0")
     (simp_all add: fetch_pixel_level_Level fetch_pixel_level_Fails)

lemma fetch_pixel_level_returns:
  "fst (fetch_pixel_level svc (x, y)) = Inr r \<Longrightarrow>
   \<exists>l. svc (make_payload (x, y)) 0 = Level l \<and> r = (x, y, l)"
  by (cases "svc (make_payload (x, y)) 0")
     (simp_all add: fetch_pixel_level_Level fetch_pixel_level_Fails)

text \<open>
  Claim C1. A call whose first \<open>N\<close> responses are errors and whose next one succeeds is
  claimed to retry \<open>N\<close> times, to log \<open>N div 10\<close> failures and to return the level.
  The code does not: at the first error the handler reaches \<^verbatim>\<open>time.sleep(.1)\<close>, the
  module never imports \<^verbatim>\<open>time\<close>, and the \<^verbatim>\<open>NameError\<close> leaves the function. For
  \<open>N = 1\<close> and for \<open>N = 10\<close>, pixel \<open>(3, 4)\<close> and level 7, one request is sent, nothing is
  logged and no level is returned.
\<close>

theorem fetch_pixel_level_aborts_on_first_error:
  "fetch_pixel_level (flaky 1 7) (3, 4)
     = (Inl (NameError ''time''), [Post (make_payload (3, 4))])
   \<and> fetch_pixel_level (flaky 10 7) (3, 4)
     = (Inl (NameError ''time''), [Post (make_payload (3, 4))])"
  by (simp add: fetch_pixel_level_def fetch_attempt_def time_sleep_def name_bound_def
        fetch_locals_def module_globals_def flaky_def)

text \<open>
  Claim C6. For every coordinate \<open>(x, y)\<close> the request body carries the swapped pair:
  its field \<open>pixel.x\<close> is \<open>y\<close> and its field \<open>pixel.y\<close> is \<open>x\<close>; and this body is
  what the call sends, whatever the service answers.
\<close>

theorem payload_swaps_axes:
  "pixel_x (make_payload (x, y)) = y \<and> pixel_y (make_payload (x, y)) = x
   \<and> snd (fetch_pixel_level svc (x, y)) = [Post (make_payload (x, y))]"
  by (simp add: fetch_pixel_level_trace) (simp add: make_payload_def)

section \<open>Validity of a sector\<close>

lemma nbytes_small:
  assumes "0 \<le> m" "m \<le> 701" "0 \<le> n" "n \<le> 701"
  shows "nbytes m n \<le> intp_max"
proof -
  define a where "a = (if m = 0 then 1 else m)"
  define b where "b = (if n = 0 then 1 else n)"
  have "0 \<le> a" "a \<le> 701" "0 \<le> b" "b \<le> 701"
    using assms by (simp_all add: a_def b_def)
  then have "a * b \<le> 701 * 701"
    by (intro mult_mono) simp_all
  then have "8 * (a * b) \<le> intp_max"
    by (simp add: intp_max_def)
  then show ?thesis
    by (simp add: nbytes_def a_def b_def mult.assoc)
qed

lemma np_zeros_small:
  assumes "0 \<le> h" "h \<le> 701" "0 \<le> w" "w \<le> 701"
  shows "np_zeros h w = Inr (zeros_array h w)"
  using assms nbytes_small [OF assms] by (simp add: np_zeros_def zeros_array_def)

lemma ndindex_small:
  assumes "0 \<le> m" "m \<le> 701" "0 \<le> n" "n \<le> 701"
  shows "ndindex m n = Inr (List.product [0..m - 1] [0..n - 1])"
  using assms nbytes_small [OF assms] by (simp add: ndindex_def intp_max_def)

lemma ndindex_Inr:
  assumes "ndindex m n = Inr idx"
  shows "0 \<le> m" "0 \<le> n" "idx = List.product [0..m - 1] [0..n - 1]"
  using assms by (simp_all add: ndindex_def split: if_splits)

text \<open>
  The shapes for which \<^verbatim>\<open>np.ndindex\<close> builds its iterator: no dimension is negative and
  the size in bytes fits \<^verbatim>\<open>npy_intp\<close>.
\<close>

lemma ndindex_builds_iff:
  "(\<exists>idx. ndindex m n = Inr idx) \<longleftrightarrow> 0 \<le> m \<and> 0 \<le> n \<and> nbytes m n \<le> intp_max"
proof
  assume "\<exists>idx. ndindex m n = Inr idx"
  then show "0 \<le> m \<and> 0 \<le> n \<and> nbytes m n \<le> intp_max"
    by (auto simp: ndindex_def split: if_splits)
next
  assume a: "0 \<le> m \<and> 0 \<le> n \<and> nbytes m n \<le> intp_max"
  define a' where "a' = (if m = 0 then 1 else m)"
  define b' where "b' = (if n = 0 then 1 else n)"
  have pos: "1 \<le> a'" "1 \<le> b'" and le: "m \<le> a'" "n \<le> b'"
    using a by (simp_all add: a'_def b'_def)
  have n: "nbytes m n = 8 * (a' * b')"
    by (simp add: nbytes_def a'_def b'_def mult.assoc)
  have "a' * 1 \<le> a' * b'" "1 * b' \<le> a' * b'"
    using pos by (intro mult_mono; simp)+
  then have "m \<le> a' * b'" "n \<le> a' * b'"
    using le by simp_all
  moreover have "0 \<le> a' * b'"
    using pos by simp
  ultimately have "m \<le> nbytes m n" "n \<le> nbytes m n"
    unfolding n by linarith+
  with a show "\<exists>idx. ndindex m n = Inr idx"
    by (simp add: ndindex_def)
qed

lemma is_valid_eq:
  "is_valid (x1, y1, x2, y2) =
     (case ndindex x2 y2 of
        Inl e \<Rightarrow> (Inl e, [])
      | Inr idx \<Rightarrow>
          if 0 \<le> x1 \<and> x1 < x2 \<and> x2 \<le> 700 \<and> 0 \<le> y1 \<and> y1 < y2 \<and> y2 \<le> 700
          then (Inr True, [])
          else (Inr False, [PrintInvalid (x1, y1, x2, y2)]))"
proof (cases "ndindex x2 y2")
  case (Inl e)
  then show ?thesis
    by (simp add: is_valid_def)
next
  case (Inr idx)
  note i = ndindex_Inr [OF Inr]
  have c: "ndindex 701 701 = Inr (List.product [0..701 - 1] [0..701 - 1])"
    by (rule ndindex_small) simp_all
  show ?thesis
    using i(1,2) by (auto simp: is_valid_def Inr i(3) c)
qed

lemma is_valid_True_iff:
  "fst (is_valid (x1, y1, x2, y2)) = Inr True
     \<longleftrightarrow> 0 \<le> x1 \<and> x1 < x2 \<and> x2 \<le> 700 \<and> 0 \<le> y1 \<and> y1 < y2 \<and> y2 \<le> 700"
proof
  assume "fst (is_valid (x1, y1, x2, y2)) = Inr True"
  then show "0 \<le> x1 \<and> x1 < x2 \<and> x2 \<le> 700 \<and> 0 \<le> y1 \<and> y1 < y2 \<and> y2 \<le> 700"
    by (simp add: is_valid_eq split: sum.splits if_splits)
next
  assume a: "0 \<le> x1 \<and> x1 < x2 \<and> x2 \<le> 700 \<and> 0 \<le> y1 \<and> y1 < y2 \<and> y2 \<le> 700"
  then have "ndindex x2 y2 = Inr (List.product [0..x2 - 1] [0..y2 - 1])"
    by (intro ndindex_small) simp_all
  with a show "fst (is_valid (x1, y1, x2, y2)) = Inr True"
    by (simp add: is_valid_eq)
qed

lemma valid_sector_bounds:
  assumes "fst (is_valid (x1, y1, x2, y2)) = Inr True"
  shows "0 \<le> x1" "x1 < x2" "x2 \<le> 700" "0 \<le> y1" "y1 < y2" "y2 \<le> 700"
    and "is_valid (x1, y1, x2, y2) = (Inr True, [])"
proof -
  from assms have b: "0 \<le> x1 \<and> x1 < x2 \<and> x2 \<le> 700 \<and> 0 \<le> y1 \<and> y1 < y2 \<and> y2 \<le> 700"
    by (simp only: is_valid_True_iff)
  then show "0 \<le> x1" "x1 < x2" "x2 \<le> 700" "0 \<le> y1" "y1 < y2" "y2 \<le> 700"
    by simp_all
  from b have "ndindex x2 y2 = Inr (List.product [0..x2 - 1] [0..y2 - 1])"
    by (intro ndindex_small) simp_all
  with b show "is_valid (x1, y1, x2, y2) = (Inr True, [])"
    by (simp add: is_valid_eq)
qed

lemma num_col_batch_ge:
  assumes "1 \<le> h" "h \<le> 700"
  shows "14 \<le> max_conc_req div h"
proof -
  have "10000 div 700 \<le> 10000 div h"
    using assms by (intro zdiv_mono2) simp_all
  then show ?thesis
    by (simp add: max_conc_req_def)
qed

text \<open>
  Claim C10. For every sector that \<^verbatim>\<open>is_valid\<close> accepts, the height \<open>h = x2 - x1\<close> is
  between 1 and 700, so \<^verbatim>\<open>10000 // h\<close> does not divide by zero and is at least 14, and
  the number of batches \<^verbatim>\<open>ceil(w / num_col_batch)\<close> is computed without a division by
  zero.
\<close>

theorem valid_sector_no_division_by_zero:
  assumes "fst (is_valid (x1, y1, x2, y2)) = Inr True"
  shows "1 \<le> x2 - x1 \<and> x2 - x1 \<le> 700
         \<and> (\<exists>k n. floordiv max_conc_req (x2 - x1) = Inr k \<and> 14 \<le> k
               \<and> ceil_truediv (y2 - y1) k = Inr n)"
proof -
  note b = valid_sector_bounds [OF assms]
  have h: "1 \<le> x2 - x1" "x2 - x1 \<le> 700"
    using b by simp_all
  have "14 \<le> max_conc_req div (x2 - x1)"
    using h by (rule num_col_batch_ge)
  with h show ?thesis
    by (simp add: floordiv_def ceil_truediv_def)
qed

theorem valid_sector_no_division_by_zero_witness:
  "fst (is_valid (217, 231, 259, 273)) = Inr True
   \<and> floordiv max_conc_req (259 - 217) = Inr 238
   \<and> ceil_truediv (273 - 231) 238 = Inr 1"
  using valid_sector_no_division_by_zero [of 217 231 259 273]
  by (simp add: is_valid_True_iff floordiv_def ceil_truediv_def max_conc_req_def)


text \<open>
  A sector \<open>(x1, y1, x2, y2)\<close> for which \<^verbatim>\<open>np.ndindex(x2, y2)\<close> cannot be built (\<open>x2\<close> or
  \<open>y2\<close> is negative or too large for NumPy) is neither accepted nor rejected: the
  exception leaves \<^verbatim>\<open>is_valid\<close>, whose docstring announces \<^verbatim>\<open>False\<close> for every sector
  that is not valid, and then \<^verbatim>\<open>get_level_data\<close>, before anything is printed or sent.
\<close>

lemma unbuildable_sector_raises:
  assumes "ndindex x2 y2 = Inl e"
  shows "get_level_data hdrs svc (x1, y1, x2, y2) = (Inl e, [])"
  using assms by (simp add: get_level_data_def is_valid_eq)



section \<open>The driver on a valid sector\<close>

lemma get_level_data_valid:
  assumes v: "fst (is_valid (x1, y1, x2, y2)) = Inr True"
  shows "get_level_data hdrs svc (x1, y1, x2, y2) =
    (case check_auth hdrs of
       (False, t1) \<Rightarrow> (Inr (zeros_array (x2 - x1) (y2 - y1)), t1)
     | (True, t1) \<Rightarrow>
         (case run_batches svc (x1, y1, x2, y2) (max_conc_req div (x2 - x1))
                 [0..<nat \<lceil>real_of_int (y2 - y1) / real_of_int (max_conc_req div (x2 - x1))\<rceil>]
                 (zeros_array (x2 - x1) (y2 - y1)) of
            (res, t2) \<Rightarrow>
              (res, t1 @ PrintSending ((x2 - x1) * (y2 - y1))
                        \<lceil>real_of_int (y2 - y1) / real_of_int (max_conc_req div (x2 - x1))\<rceil> # t2)))"
proof -
  note b = valid_sector_bounds [OF v]
  have k: "14 \<le> max_conc_req div (x2 - x1)"
    using b by (intro num_col_batch_ge) simp_all
  then have k0: "max_conc_req div (x2 - x1) \<noteq> 0" by simp
  have h0: "x2 - x1 \<noteq> 0" using b by simp
  have z: "np_zeros (x2 - x1) (y2 - y1) = Inr (zeros_array (x2 - x1) (y2 - y1))"
    using b by (intro np_zeros_small) simp_all
  show ?thesis
    using h0 k0
    by (simp add: get_level_data_def b(7) floordiv_def ceil_truediv_def z Let_def
          split: prod.split bool.split)
qed

text \<open>
  Claim C7. When the authorization key is absent from the headers or empty,
  \<^verbatim>\<open>get_level_data\<close> on a valid sector prints the diagnostic, sends no request and
  returns the array of zeros of the shape of the sector.
\<close>

theorem missing_credentials_short_circuit:
  assumes "fst (is_valid (x1, y1, x2, y2)) = Inr True"
    and "hdrs ''authorization'' = None \<or> hdrs ''authorization'' = Some ''''"
  shows "get_level_data hdrs svc (x1, y1, x2, y2)
           = (Inr \<lparr> nrows = nat (x2 - x1), ncols = nat (y2 - y1),
                    rows = replicate (nat (x2 - x1)) (replicate (nat (y2 - y1)) 0) \<rparr>,
              [PrintAuth])
         \<and> requests_sent (snd (get_level_data hdrs svc (x1, y1, x2, y2))) = []"
proof -
  from assms(2) have "check_auth hdrs = (False, [PrintAuth])"
    by (simp add: check_auth_def)
  then have "get_level_data hdrs svc (x1, y1, x2, y2)
           = (Inr (zeros_array (x2 - x1) (y2 - y1)), [PrintAuth])"
    by (simp add: get_level_data_valid [OF assms(1)])
  then show ?thesis
    by (simp add: zeros_array_def)
qed

theorem missing_credentials_short_circuit_witness:
  "get_level_data headers mock_service (0, 0, 2, 3)
     = (Inr \<lparr> nrows = 2, ncols = 3, rows = [[0, 0, 0], [0, 0, 0]] \<rparr>, [PrintAuth])
   \<and> get_level_data Map.empty mock_service (0, 0, 2, 3)
     = (Inr \<lparr> nrows = 2, ncols = 3, rows = [[0, 0, 0], [0, 0, 0]] \<rparr>, [PrintAuth])"
proof -
  have v: "fst (is_valid (0, 0, 2, 3)) = Inr True"
    by (simp add: is_valid_True_iff)
  have a: "headers ''authorization'' = None \<or> headers ''authorization'' = Some ''''"
    by (simp add: headers_def)
  have r: "replicate (nat 2) (replicate (nat 3) (0::int)) = [[0, 0, 0], [0, 0, 0]]"
    by (simp add: numeral_2_eq_2 numeral_3_eq_3)
  show ?thesis
    using missing_credentials_short_circuit [of 0 0 2 3 headers mock_service]
      missing_credentials_short_circuit [of 0 0 2 3 Map.empty mock_service] v a r
    by simp
qed

section \<open>The renderer draws only a positive maximum\<close>

text \<open>
  Claim C9. For every array whose maximum is 0 the renderer makes no call into
  matplotlib; for every array whose maximum is positive it draws the image, the colour
  bar and the title, and shows the figure.
\<close>

theorem plot_only_positive_maximum:
  assumes "np_amax data = Inr m"
  shows "(m = 0 \<longrightarrow> plot_level_map_from_data data (x1, y1, x2, y2) = (Inr (), []))
       \<and> (0 < m \<longrightarrow> plot_level_map_from_data data (x1, y1, x2, y2)
              = (Inr (), [Imshow data (y1, y2, x2, x1), Colorbar, Title (x1, y1, x2, y2) m, Show]))"
  using assms by (simp add: plot_level_map_from_data_def)

theorem plot_only_positive_maximum_witness:
  "plot_level_map_from_data \<lparr> nrows = 1, ncols = 2, rows = [[0, 0]] \<rparr> (0, 0, 1, 2) = (Inr (), [])
   \<and> plot_level_map_from_data \<lparr> nrows = 1, ncols = 2, rows = [[0, 3]] \<rparr> (0, 0, 1, 2)
       = (Inr (), [Imshow \<lparr> nrows = 1, ncols = 2, rows = [[0, 3]] \<rparr> (0, 2, 1, 0), Colorbar,
                   Title (0, 0, 1, 2) 3, Show])"
  using plot_only_positive_maximum [of "\<lparr> nrows = 1, ncols = 2, rows = [[0, 0]] \<rparr>" 0 0 0 1 2]
    plot_only_positive_maximum [of "\<lparr> nrows = 1, ncols = 2, rows = [[0, 3]] \<rparr>" 3 0 0 1 2]
  by (simp add: np_amax_def)

section \<open>Filling the array in\<close>

lemma setitem_in_range:
  assumes "0 \<le> i" "i < int (nrows data)" "0 \<le> j" "j < int (ncols data)"
    "- (2 ^ 63) \<le> v" "v < 2 ^ 63"
  shows "setitem data i j v
           = Inr (data\<lparr> rows := (rows data)[nat i := (rows data ! nat i)[nat j := v]] \<rparr>)"
  using assms by (simp add: setitem_def normalise_index_def)

lemma setitem_out_of_range:
  assumes "i < - int (nrows data) \<or> int (nrows data) \<le> i
           \<or> j < - int (ncols data) \<or> int (ncols data) \<le> j"
  shows "setitem data i j v = Inl IndexError"
  using assms by (auto simp: setitem_def normalise_index_def split: sum.splits)

lemma setitem_shape:
  "setitem data i j v = Inr d \<Longrightarrow> nrows d = nrows data \<and> ncols d = ncols data"
  by (auto simp: setitem_def split: sum.splits if_splits)

lemma normalise_index_Inr: "normalise_index n i = Inr r \<Longrightarrow> r < n"
  by (auto simp: normalise_index_def split: if_splits)

lemma write_cell_wf:
  assumes "wf_array data" "r < nrows data"
  shows "wf_array (data\<lparr> rows := (rows data)[r := (rows data ! r)[c := v]] \<rparr>)"
proof -
  have "length ((rows data ! r)[c := v]) = ncols data"
    using assms by (simp add: wf_array_def)
  moreover have "set ((rows data)[r := (rows data ! r)[c := v]])
      \<subseteq> insert ((rows data ! r)[c := v]) (set (rows data))"
    by (rule set_update_subset_insert)
  ultimately show ?thesis
    using assms(1) by (auto simp: wf_array_def)
qed

lemma setitem_wf:
  assumes "setitem data i j v = Inr d" "wf_array data"
  shows "wf_array d"
proof -
  from assms(1) obtain r c where r: "normalise_index (nrows data) i = Inr r"
    and d: "d = data\<lparr> rows := (rows data)[r := (rows data ! r)[c := v]] \<rparr>"
    by (auto simp: setitem_def split: sum.splits if_splits)
  from r have "r < nrows data" by (rule normalise_index_Inr)
  then show ?thesis
    unfolding d using assms(2) by (intro write_cell_wf)
qed

lemma fill_in_Cons:
  "fill_in x1 y1 ((x, y, l) # rs) data =
     (case setitem data (x - x1) (y - y1) l of
        Inr d \<Rightarrow> fill_in x1 y1 rs d
      | Inl e \<Rightarrow> (fst (fill_in x1 y1 rs data), PrintProblem x y l # snd (fill_in x1 y1 rs data)))"
  by (simp split: sum.split prod.split)

lemma fill_in_shape:
  "nrows (fst (fill_in x1 y1 rs data)) = nrows data
   \<and> ncols (fst (fill_in x1 y1 rs data)) = ncols data"
proof (induction rs arbitrary: data)
  case Nil
  show ?case by simp
next
  case (Cons r rs)
  obtain x y l where r: "r = (x, y, l)" by (cases r)
  show ?case
  proof (cases "setitem data (x - x1) (y - y1) l")
    case (Inl e)
    then show ?thesis
      using Cons.IH [of data] by (simp add: r fill_in_Cons del: fill_in.simps)
  next
    case (Inr d)
    then show ?thesis
      using Cons.IH [of d] setitem_shape [OF Inr] by (simp add: r fill_in_Cons del: fill_in.simps)
  qed
qed

lemma fill_in_wf:
  "wf_array data \<Longrightarrow> wf_array (fst (fill_in x1 y1 rs data))"
proof (induction rs arbitrary: data)
  case Nil
  then show ?case by simp
next
  case (Cons r rs)
  obtain x y l where r: "r = (x, y, l)" by (cases r)
  show ?case
  proof (cases "setitem data (x - x1) (y - y1) l")
    case (Inl e)
    then show ?thesis
      using Cons.IH [OF Cons.prems] by (simp add: r fill_in_Cons del: fill_in.simps)
  next
    case (Inr d)
    then show ?thesis
      using Cons.IH [OF setitem_wf [OF Inr Cons.prems]]
      by (simp add: r fill_in_Cons del: fill_in.simps)
  qed
qed

lemma setitem_wrapped:
  assumes "- int (nrows data) \<le> i" "i < int (nrows data)"
    "- int (ncols data) \<le> j" "j < int (ncols data)"
    "- (2 ^ 63) \<le> v" "v < 2 ^ 63"
  shows "setitem data i j v
           = Inr (data\<lparr> rows := (rows data)
                    [nat (if i < 0 then i + int (nrows data) else i) :=
                       (rows data ! nat (if i < 0 then i + int (nrows data) else i))
                         [nat (if j < 0 then j + int (ncols data) else j) := v]] \<rparr>)"
  using assms by (simp add: setitem_def normalise_index_def)

lemma setitem_raises:
  assumes "i < - int (nrows data) \<or> int (nrows data) \<le> i
           \<or> j < - int (ncols data) \<or> int (ncols data) \<le> j
           \<or> v < - (2 ^ 63) \<or> 2 ^ 63 \<le> v"
  shows "\<exists>e. setitem data i j v = Inl e"
  using assms by (auto simp: setitem_def normalise_index_def split: sum.splits)

text \<open>
  The results that \<^verbatim>\<open>asyncio.gather\<close> hands to the loop carry the coordinates that were
  asked, in their order: \<^verbatim>\<open>fetch_pixel_level\<close> returns the pixel it was given.
\<close>

lemma gather_coords:
  "fst (gather svc ps) = Inr rs \<Longrightarrow> map coord rs = ps"
proof (induction ps arbitrary: rs)
  case Nil
  then show ?case by simp
next
  case (Cons p ps)
  obtain x y where p: "p = (x, y)" by (cases p)
  obtain r1 t1 where f: "fetch_pixel_level svc (x, y) = (r1, t1)"
    by (cases "fetch_pixel_level svc (x, y)")
  obtain r2 t2 where g: "gather svc ps = (r2, t2)"
    by (cases "gather svc ps")
  from Cons.prems obtain r rs' where r1: "r1 = Inr r" and r2: "r2 = Inr rs'" and rs: "rs = r # rs'"
    by (auto simp: p f g split: sum.splits)
  from f r1 have "fst (fetch_pixel_level svc (x, y)) = Inr r" by simp
  then obtain l where "r = (x, y, l)"
    using fetch_pixel_level_returns by blast
  then have "coord r = (x, y)"
    by (simp add: coord_def)
  moreover from g r2 have "map coord rs' = ps"
    by (intro Cons.IH) simp
  ultimately show ?case
    by (simp add: rs p)
qed

text \<open>
  Claim C8, as stated, says that every result is written to the grid at its position.
  For the sector \<open>(1, 1, 2, 3)\<close> and a service that reports the level \<open>2 ^ 63\<close>, the
  fetchers return \<open>(1, 1, 2 ^ 63)\<close> and \<open>(1, 2, 2 ^ 63)\<close>, whose positions \<open>(0, 0)\<close> and
  \<open>(0, 1)\<close> lie inside the grid of shape 1x2. The level does not fit the element type, the
  assignment raises \<^verbatim>\<open>OverflowError\<close>, and both results are reported and skipped: the
  cells keep their 0.
\<close>

theorem overflowing_result_not_written:
  "gather huge_level_service [(1, 1), (1, 2)]
     = (Inr [(1, 1, 9223372036854775808), (1, 2, 9223372036854775808)],
        [Post (make_payload (1, 1)), Post (make_payload (1, 2))])
   \<and> fill_in 1 1 [(1, 1, 9223372036854775808), (1, 2, 9223372036854775808)]
       \<lparr> nrows = 1, ncols = 2, rows = [[0, 0]] \<rparr>
     = (\<lparr> nrows = 1, ncols = 2, rows = [[0, 0]] \<rparr>,
        [PrintProblem 1 1 9223372036854775808, PrintProblem 1 2 9223372036854775808])"
  by (simp add: huge_level_service_def fetch_pixel_level_Level setitem_def normalise_index_def)

text \<open>
  Claim C8, amended. In the loop that fills the array in, of shape \<open>h\<close> x \<open>w\<close>:

  \<^item> a result whose offset \<open>(x - x1, y - y1)\<close> lies inside the array and whose level fits
    the element type, a signed integer of 64 bits, is written at that offset;

  \<^item> a result whose level does not fit the element type, or whose row offset lies outside
    \<open>-h \<le> i < h\<close>, or whose column offset lies outside \<open>-w \<le> j < w\<close>, is reported and
    skipped;

  \<^item> NumPy counts a negative index from the end, so a result whose level fits and whose
    offsets lie in \<open>-h \<le> i < h\<close> and \<open>-w \<le> j < w\<close>, one of them negative, is written at
    the offset plus the size of the dimension;

  \<^item> the loop never raises: it always returns an array, of the shape it started with;

  \<^item> the results the loop receives from the fetchers carry the coordinates that were
    asked, those of the sector, so their offsets lie inside the array.
\<close>

theorem fill_in_writes_or_reports:
  "(0 \<le> x - x1 \<and> x - x1 < int (nrows data) \<and> 0 \<le> y - y1 \<and> y - y1 < int (ncols data)
      \<and> - (2 ^ 63) \<le> level \<and> level < 2 ^ 63
     \<longrightarrow> fill_in x1 y1 ((x, y, level) # rest) data
           = fill_in x1 y1 rest
               (data\<lparr> rows := (rows data)[nat (x - x1) :=
                                  (rows data ! nat (x - x1))[nat (y - y1) := level]] \<rparr>))
   \<and> (x - x1 < - int (nrows data) \<or> int (nrows data) \<le> x - x1
        \<or> y - y1 < - int (ncols data) \<or> int (ncols data) \<le> y - y1
        \<or> level < - (2 ^ 63) \<or> 2 ^ 63 \<le> level
     \<longrightarrow> fill_in x1 y1 ((x, y, level) # rest) data
           = (fst (fill_in x1 y1 rest data),
              PrintProblem x y level # snd (fill_in x1 y1 rest data)))
   \<and> (- int (nrows data) \<le> x - x1 \<and> x - x1 < int (nrows data)
        \<and> - int (ncols data) \<le> y - y1 \<and> y - y1 < int (ncols data)
        \<and> - (2 ^ 63) \<le> level \<and> level < 2 ^ 63
     \<longrightarrow> fill_in x1 y1 ((x, y, level) # rest) data
           = fill_in x1 y1 rest
               (data\<lparr> rows := (rows data)
                  [nat (if x - x1 < 0 then x - x1 + int (nrows data) else x - x1) :=
                     (rows data ! nat (if x - x1 < 0 then x - x1 + int (nrows data) else x - x1))
                       [nat (if y - y1 < 0 then y - y1 + int (ncols data) else y - y1)
                          := level]] \<rparr>))
   \<and> nrows (fst (fill_in x1 y1 results data)) = nrows data
   \<and> ncols (fst (fill_in x1 y1 results data)) = ncols data
   \<and> (wf_array data \<longrightarrow> wf_array (fst (fill_in x1 y1 results data)))
   \<and> (fst (gather svc pixels) = Inr results \<longrightarrow> map coord results = pixels)"
proof (intro conjI impI)
  assume "0 \<le> x - x1 \<and> x - x1 < int (nrows data) \<and> 0 \<le> y - y1 \<and> y - y1 < int (ncols data)
      \<and> - (2 ^ 63) \<le> level \<and> level < 2 ^ 63"
  then show "fill_in x1 y1 ((x, y, level) # rest) data
           = fill_in x1 y1 rest
               (data\<lparr> rows := (rows data)[nat (x - x1) :=
                                  (rows data ! nat (x - x1))[nat (y - y1) := level]] \<rparr>)"
    by (simp add: fill_in_Cons setitem_in_range del: fill_in.simps)
next
  assume "x - x1 < - int (nrows data) \<or> int (nrows data) \<le> x - x1
        \<or> y - y1 < - int (ncols data) \<or> int (ncols data) \<le> y - y1
        \<or> level < - (2 ^ 63) \<or> 2 ^ 63 \<le> level"
  then obtain e where "setitem data (x - x1) (y - y1) level = Inl e"
    using setitem_raises by blast
  then show "fill_in x1 y1 ((x, y, level) # rest) data
           = (fst (fill_in x1 y1 rest data),
              PrintProblem x y level # snd (fill_in x1 y1 rest data))"
    by (simp add: fill_in_Cons del: fill_in.simps)
next
  assume a: "- int (nrows data) \<le> x - x1 \<and> x - x1 < int (nrows data)
        \<and> - int (ncols data) \<le> y - y1 \<and> y - y1 < int (ncols data)
        \<and> - (2 ^ 63) \<le> level \<and> level < 2 ^ 63"
  have "setitem data (x - x1) (y - y1) level
      = Inr (data\<lparr> rows := (rows data)
                  [nat (if x - x1 < 0 then x - x1 + int (nrows data) else x - x1) :=
                     (rows data ! nat (if x - x1 < 0 then x - x1 + int (nrows data) else x - x1))
                       [nat (if y - y1 < 0 then y - y1 + int (ncols data) else y - y1)
                          := level]] \<rparr>)"
    using a by (intro setitem_wrapped) simp_all
  then show "fill_in x1 y1 ((x, y, level) # rest) data
           = fill_in x1 y1 rest
               (data\<lparr> rows := (rows data)
                  [nat (if x - x1 < 0 then x - x1 + int (nrows data) else x - x1) :=
                     (rows data ! nat (if x - x1 < 0 then x - x1 + int (nrows data) else x - x1))
                       [nat (if y - y1 < 0 then y - y1 + int (ncols data) else y - y1)
                          := level]] \<rparr>)"
    by (simp only: fill_in_Cons sum.case)
next
  show "nrows (fst (fill_in x1 y1 results data)) = nrows data"
    and "ncols (fst (fill_in x1 y1 results data)) = ncols data"
    by (simp_all add: fill_in_shape)
next
  assume "wf_array data"
  then show "wf_array (fst (fill_in x1 y1 results data))"
    by (rule fill_in_wf)
next
  assume "fst (gather svc pixels) = Inr results"
  then show "map coord results = pixels"
    by (rule gather_coords)
qed

theorem fill_in_writes_or_reports_witness:
  "fill_in 1 1 [(2, 1, 5), (3, 1, 6), (1, 7, 8), (1, 2, 9223372036854775808), (0, 2, 4)]
       \<lparr> nrows = 2, ncols = 2, rows = [[0, 0], [0, 0]] \<rparr>
     = (\<lparr> nrows = 2, ncols = 2, rows = [[0, 0], [5, 4]] \<rparr>,
        [PrintProblem 3 1 6, PrintProblem 1 7 8, PrintProblem 1 2 9223372036854775808])
   \<and> wf_array \<lparr> nrows = 2, ncols = 2, rows = [[0, 0], [5, 4]] \<rparr>
   \<and> map coord [(1, 1, 11), (1, 2, 12)] = [(1, 1), (1, 2)]"
proof -
  let ?d0 = "\<lparr> nrows = 2, ncols = 2, rows = [[0, 0], [0::int, 0]] \<rparr>"
  let ?d1 = "\<lparr> nrows = 2, ncols = 2, rows = [[0, 0], [5::int, 0]] \<rparr>"
  let ?d2 = "\<lparr> nrows = 2, ncols = 2, rows = [[0, 0], [5::int, 4]] \<rparr>"
  let ?r1 = "(2::int, 1::int, 5::int)"
  let ?r2 = "(3::int, 1::int, 6::int)"
  let ?r3 = "(1::int, 7::int, 8::int)"
  let ?r4 = "(1::int, 2::int, 9223372036854775808::int)"
  let ?r5 = "(0::int, 2::int, 4::int)"
  have w: "wf_array ?d0"
    by (simp add: wf_array_def)
  have s1: "fill_in 1 1 [?r1, ?r2, ?r3, ?r4, ?r5] ?d0 = fill_in 1 1 [?r2, ?r3, ?r4, ?r5] ?d1"
    using fill_in_writes_or_reports [of 2 1 ?d0 1 1 5 "[?r2, ?r3, ?r4, ?r5]"]
    by simp
  have s2: "fill_in 1 1 [?r2, ?r3, ?r4, ?r5] ?d1
      = (fst (fill_in 1 1 [?r3, ?r4, ?r5] ?d1),
         PrintProblem 3 1 6 # snd (fill_in 1 1 [?r3, ?r4, ?r5] ?d1))"
    using fill_in_writes_or_reports [of 3 1 ?d1 1 1 6 "[?r3, ?r4, ?r5]"]
    by simp
  have s3: "fill_in 1 1 [?r3, ?r4, ?r5] ?d1
      = (fst (fill_in 1 1 [?r4, ?r5] ?d1), PrintProblem 1 7 8 # snd (fill_in 1 1 [?r4, ?r5] ?d1))"
    using fill_in_writes_or_reports [of 1 1 ?d1 7 1 8 "[?r4, ?r5]"]
    by simp
  have s4: "fill_in 1 1 [?r4, ?r5] ?d1
      = (fst (fill_in 1 1 [?r5] ?d1),
         PrintProblem 1 2 9223372036854775808 # snd (fill_in 1 1 [?r5] ?d1))"
    using fill_in_writes_or_reports [of 1 1 ?d1 2 1 9223372036854775808 "[?r5]"]
    by simp
  have s5: "fill_in 1 1 [?r5] ?d1 = (?d2, [])"
    using fill_in_writes_or_reports [of 0 1 ?d1 2 1 4 "[]"]
    by simp
  have s6: "wf_array (fst (fill_in 1 1 [?r1, ?r2, ?r3, ?r4, ?r5] ?d0))"
    using fill_in_writes_or_reports [of 2 1 ?d0 1 1 5 "[]" "[?r1, ?r2, ?r3, ?r4, ?r5]"] w
    by blast
  have g: "fst (gather mock_service [(1, 1), (1, 2)]) = Inr [(1, 1, 11), (1, 2, 12)]"
    by (simp add: mock_service_def make_payload_def fetch_pixel_level_Level)
  have s7: "map coord [(1, 1, 11), (1, 2, 12)] = [(1::int, 1::int), (1, 2)]"
    using fill_in_writes_or_reports [of 2 1 ?d0 1 1 5 "[]" "[(1, 1, 11), (1, 2, 12)]"
        mock_service "[(1, 1), (1, 2)]"] g
    by blast
  show ?thesis
    using s6 s7 by (simp add: s1 s2 s3 s4 s5 del: fill_in.simps)
qed

section \<open>Scattering the results\<close>

lemma put_nonneg:
  assumes "0 \<le> x - x1" "0 \<le> y - y1"
  shows "put x1 y1 (x, y, l) d =
     (if x - x1 < int (nrows d) \<and> y - y1 < int (ncols d) \<and> fits l
      then write_cell d (nat (x - x1)) (nat (y - y1)) l else d)"
  using assms
  by (simp add: put_def setitem_def normalise_index_def write_cell_def fits_def not_le not_less)

lemma write_cell_shape [simp]:
  "nrows (write_cell d r c v) = nrows d" "ncols (write_cell d r c v) = ncols d"
  by (simp_all add: write_cell_def)

lemma rows_write_cell_other:
  assumes "(r, c) \<noteq> (r', c')"
  shows "rows (write_cell d r c v) ! r' ! c' = rows d ! r' ! c'"
proof (cases "r = r'")
  case False
  then have "(rows d)[r := (rows d ! r)[c := v]] ! r' = rows d ! r'"
    by (rule nth_list_update_neq)
  then show ?thesis by (simp add: write_cell_def)
next
  case True
  with assms have c: "c \<noteq> c'" by simp
  show ?thesis
  proof (cases "r < length (rows d)")
    case True
    then have "(rows d)[r := (rows d ! r)[c := v]] ! r = (rows d ! r)[c := v]"
      by (rule nth_list_update_eq)
    moreover have "(rows d ! r)[c := v] ! c' = rows d ! r ! c'"
      using c by (rule nth_list_update_neq)
    ultimately show ?thesis
      unfolding \<open>r = r'\<close> [symmetric] by (simp add: write_cell_def)
  next
    case False
    then have "(rows d)[r := (rows d ! r)[c := v]] = rows d"
      by (intro list_update_beyond) simp
    then show ?thesis
      unfolding \<open>r = r'\<close> [symmetric] by (simp add: write_cell_def)
  qed
qed

lemma rows_write_cell_same:
  assumes "wf_array d" "r < nrows d" "c < ncols d"
  shows "rows (write_cell d r c v) ! r ! c = v"
proof -
  have "r < length (rows d)"
    using assms by (simp add: wf_array_def)
  moreover from this have "c < length (rows d ! r)"
    using assms by (simp add: wf_array_def)
  ultimately show ?thesis
    by (simp add: write_cell_def)
qed

lemma write_cell_commute:
  assumes "(r, c) \<noteq> (r', c')"
  shows "write_cell (write_cell d r c v) r' c' v' = write_cell (write_cell d r' c' v') r c v"
proof -
  let ?A = "(rows d ! r)[c := v]" and ?B = "(rows d ! r')[c' := v']"
  have "(rows d)[r := ?A, r' := ((rows d)[r := ?A] ! r')[c' := v']]
      = (rows d)[r' := ?B, r := ((rows d)[r' := ?B] ! r)[c := v]]"
  proof (cases "r = r'")
    case False
    have 1: "(rows d)[r := ?A] ! r' = rows d ! r'"
      using False by (rule nth_list_update_neq)
    have 2: "(rows d)[r' := ?B] ! r = rows d ! r"
      using False [symmetric] by (rule nth_list_update_neq)
    show ?thesis
      unfolding 1 2 using False by (rule list_update_swap)
  next
    case True
    with assms have c: "c \<noteq> c'" by simp
    show ?thesis
    proof (cases "r < length (rows d)")
      case True
      have 1: "(rows d)[r := ?A] ! r = ?A"
        using True by (rule nth_list_update_eq)
      have 2: "(rows d)[r := (rows d ! r)[c' := v']] ! r = (rows d ! r)[c' := v']"
        using True by (rule nth_list_update_eq)
      have "(rows d ! r)[c := v, c' := v'] = (rows d ! r)[c' := v', c := v]"
        using c by (rule list_update_swap)
      then show ?thesis
        unfolding \<open>r = r'\<close> [symmetric] 1 2 list_update_overwrite by simp
    next
      case False
      then have "(rows d)[r := x] = rows d" for x
        by (intro list_update_beyond) simp
      then show ?thesis
        unfolding \<open>r = r'\<close> [symmetric] by simp
    qed
  qed
  then show ?thesis
    by (simp add: write_cell_def)
qed

lemma put_commute:
  assumes "0 \<le> x - x1" "0 \<le> y - y1" "0 \<le> x' - x1" "0 \<le> y' - y1" "(x, y) \<noteq> (x', y')"
  shows "put x1 y1 (x, y, l) (put x1 y1 (x', y', l') d)
       = put x1 y1 (x', y', l') (put x1 y1 (x, y, l) d)"
proof -
  let ?i = "nat (x - x1)" and ?j = "nat (y - y1)"
  let ?i' = "nat (x' - x1)" and ?j' = "nat (y' - y1)"
  let ?A = "x - x1 < int (nrows d) \<and> y - y1 < int (ncols d) \<and> fits l"
  let ?B = "x' - x1 < int (nrows d) \<and> y' - y1 < int (ncols d) \<and> fits l'"
  have ne: "(?i, ?j) \<noteq> (?i', ?j')"
    using assms by auto
  have pa: "put x1 y1 (x, y, l) e = (if ?A then write_cell e ?i ?j l else e)"
    if "nrows e = nrows d" "ncols e = ncols d" for e
    using that by (simp only: put_nonneg [OF assms(1,2)])
  have pb: "put x1 y1 (x', y', l') e = (if ?B then write_cell e ?i' ?j' l' else e)"
    if "nrows e = nrows d" "ncols e = ncols d" for e
    using that by (simp only: put_nonneg [OF assms(3,4)])
  have l1: "put x1 y1 (x', y', l') d = (if ?B then write_cell d ?i' ?j' l' else d)"
    by (rule pb) simp_all
  have l2: "put x1 y1 (x, y, l) d = (if ?A then write_cell d ?i ?j l else d)"
    by (rule pa) simp_all
  have l3: "put x1 y1 (x, y, l) (write_cell d ?i' ?j' l')
      = (if ?A then write_cell (write_cell d ?i' ?j' l') ?i ?j l else write_cell d ?i' ?j' l')"
    by (rule pa) simp_all
  have l4: "put x1 y1 (x', y', l') (write_cell d ?i ?j l)
      = (if ?B then write_cell (write_cell d ?i ?j l) ?i' ?j' l' else write_cell d ?i ?j l)"
    by (rule pb) simp_all
  have sw: "write_cell (write_cell d ?i' ?j' l') ?i ?j l = write_cell (write_cell d ?i ?j l) ?i' ?j' l'"
    by (rule write_cell_commute [OF ne, symmetric])
  show ?thesis
  proof (cases ?A)
    case A: True
    show ?thesis
    proof (cases ?B)
      case True
      with A show ?thesis
        by (simp only: l1 l2 l3 l4 simp_thms if_True sw)
    next
      case False
      with A show ?thesis
        by (simp only: l1 l2 l3 l4 simp_thms if_True if_False)
    qed
  next
    case A: False
    show ?thesis
    proof (cases ?B)
      case True
      with A show ?thesis
        by (simp only: l1 l2 l3 l4 simp_thms if_True if_False)
    next
      case False
      with A show ?thesis
        by (simp only: l1 l2 l3 l4 simp_thms if_False)
    qed
  qed
qed

lemma fill_in_fold: "fst (fill_in x1 y1 rs data) = fold (put x1 y1) rs data"
proof (induction rs arbitrary: data)
  case Nil
  show ?case by simp
next
  case (Cons r rs)
  obtain x y l where r: "r = (x, y, l)" by (cases r)
  show ?case
    using Cons.IH
    by (cases "setitem data (x - x1) (y - y1) l")
       (simp_all add: r fill_in_Cons put_def del: fill_in.simps)
qed

lemma put_cases:
  obtains (skipped) "put x1 y1 r d = d"
  | (written) i j v where "setitem d i j v = Inr (put x1 y1 r d)"
proof -
  obtain x y l where r: "r = (x, y, l)" by (cases r)
  show ?thesis
  proof (cases "setitem d (x - x1) (y - y1) l")
    case (Inl e)
    then have "put x1 y1 r d = d" by (simp add: put_def r)
    then show ?thesis by (rule skipped)
  next
    case (Inr d')
    then have "put x1 y1 r d = d'" by (simp add: put_def r)
    with Inr show ?thesis by (intro written) simp
  qed
qed

lemma put_shape [simp]:
  "nrows (put x1 y1 r d) = nrows d" "ncols (put x1 y1 r d) = ncols d"
proof -
  show "nrows (put x1 y1 r d) = nrows d"
    by (cases rule: put_cases [of x1 y1 r d]) (simp_all add: setitem_shape)
  show "ncols (put x1 y1 r d) = ncols d"
    by (cases rule: put_cases [of x1 y1 r d]) (simp_all add: setitem_shape)
qed

lemma put_wf: "wf_array d \<Longrightarrow> wf_array (put x1 y1 r d)"
  by (cases rule: put_cases [of x1 y1 r d]) (simp_all add: setitem_wf)

lemma put_other:
  assumes "0 \<le> x - x1" "0 \<le> y - y1" "0 \<le> x' - x1" "0 \<le> y' - y1" "(x', y') \<noteq> (x, y)"
  shows "rows (put x1 y1 (x', y', l') d) ! nat (x - x1) ! nat (y - y1)
       = rows d ! nat (x - x1) ! nat (y - y1)"
proof -
  have ne: "(nat (x' - x1), nat (y' - y1)) \<noteq> (nat (x - x1), nat (y - y1))"
    using assms by auto
  show ?thesis
    unfolding put_nonneg [OF assms(3,4)] using rows_write_cell_other [OF ne, of d l'] by simp
qed

lemma fold_put_other:
  assumes "0 \<le> x - x1" "0 \<le> y - y1"
    and "\<forall>r \<in> set rs. 0 \<le> fst r - x1 \<and> 0 \<le> fst (snd r) - y1 \<and> coord r \<noteq> (x, y)"
  shows "rows (fold (put x1 y1) rs d) ! nat (x - x1) ! nat (y - y1)
       = rows d ! nat (x - x1) ! nat (y - y1)"
  using assms(3)
proof (induction rs arbitrary: d)
  case Nil
  show ?case by simp
next
  case (Cons r rs)
  obtain x' y' l' where r: "r = (x', y', l')" by (cases r)
  from Cons.prems have h: "0 \<le> x' - x1" "0 \<le> y' - y1" "(x', y') \<noteq> (x, y)"
    and rest: "\<forall>r \<in> set rs. 0 \<le> fst r - x1 \<and> 0 \<le> fst (snd r) - y1 \<and> coord r \<noteq> (x, y)"
    by (simp_all add: r coord_def)
  have "rows (fold (put x1 y1) rs (put x1 y1 r d)) ! nat (x - x1) ! nat (y - y1)
      = rows (put x1 y1 r d) ! nat (x - x1) ! nat (y - y1)"
    by (rule Cons.IH [OF rest])
  also have "\<dots> = rows d ! nat (x - x1) ! nat (y - y1)"
    unfolding r by (rule put_other [OF assms(1,2) h])
  finally show ?case by simp
qed

lemma fold_put_cell:
  assumes "wf_array d"
    and "\<forall>r \<in> set rs. 0 \<le> fst r - x1 \<and> fst r - x1 < int (nrows d)
           \<and> 0 \<le> fst (snd r) - y1 \<and> fst (snd r) - y1 < int (ncols d) \<and> fits (snd (snd r))"
    and "distinct (map coord rs)"
    and "(x, y, l) \<in> set rs"
  shows "rows (fold (put x1 y1) rs d) ! nat (x - x1) ! nat (y - y1) = l"
  using assms
proof (induction rs arbitrary: d)
  case Nil
  then show ?case by simp
next
  case (Cons r rs)
  obtain x' y' l' where r: "r = (x', y', l')" by (cases r)
  from Cons.prems(2) have
    hr: "0 \<le> x' - x1" "x' - x1 < int (nrows d)" "0 \<le> y' - y1" "y' - y1 < int (ncols d)" "fits l'"
    and rest: "\<forall>r \<in> set rs. 0 \<le> fst r - x1 \<and> fst r - x1 < int (nrows d)
           \<and> 0 \<le> fst (snd r) - y1 \<and> fst (snd r) - y1 < int (ncols d) \<and> fits (snd (snd r))"
    by (simp_all add: r)
  from Cons.prems(3) have dist: "distinct (map coord rs)"
    and "coord r \<notin> coord ` set rs"
    by simp_all
  then have notin: "(x', y') \<notin> coord ` set rs"
    by (simp add: r coord_def)
  show ?case
  proof (cases "(x, y, l) = r")
    case True
    then have eq: "x' = x" "y' = y" "l' = l" by (simp_all add: r)
    have others: "\<forall>r \<in> set rs. 0 \<le> fst r - x1 \<and> 0 \<le> fst (snd r) - y1 \<and> coord r \<noteq> (x, y)"
    proof
      fix q assume q: "q \<in> set rs"
      then have "coord q \<noteq> (x, y)"
        using notin unfolding eq by (metis imageI)
      with rest q show "0 \<le> fst q - x1 \<and> 0 \<le> fst (snd q) - y1 \<and> coord q \<noteq> (x, y)"
        by simp
    qed
    have "rows (fold (put x1 y1) rs (put x1 y1 r d)) ! nat (x - x1) ! nat (y - y1)
        = rows (put x1 y1 r d) ! nat (x - x1) ! nat (y - y1)"
      using hr(1,3) unfolding eq by (rule fold_put_other [OF _ _ others])
    also have "\<dots> = l"
      using hr Cons.prems(1) unfolding r eq
      by (subst put_nonneg) (simp_all add: rows_write_cell_same)
    finally show ?thesis by simp
  next
    case False
    with Cons.prems(4) have mem: "(x, y, l) \<in> set rs" by simp
    have "rows (fold (put x1 y1) rs (put x1 y1 r d)) ! nat (x - x1) ! nat (y - y1) = l"
      using rest dist mem
      by (intro Cons.IH) (simp_all add: put_wf Cons.prems(1))
    then show ?thesis by simp
  qed
qed

lemma fold_put_permuted:
  assumes "\<forall>r \<in> set rs. 0 \<le> fst r - x1 \<and> 0 \<le> fst (snd r) - y1"
    and "distinct (map coord rs)"
    and "mset rs' = mset rs"
  shows "fold (put x1 y1) rs' d = fold (put x1 y1) rs d"
proof -
  have comm: "put x1 y1 a \<circ> put x1 y1 b = put x1 y1 b \<circ> put x1 y1 a"
    if a: "a \<in> set rs" and b: "b \<in> set rs" for a b
  proof (cases "a = b")
    case True
    then show ?thesis by simp
  next
    case False
    obtain x y l where ea: "a = (x, y, l)" by (cases a)
    obtain x' y' l' where eb: "b = (x', y', l')" by (cases b)
    have "inj_on coord (set rs)"
      using assms(2) by (simp add: distinct_map)
    with a b False have "coord a \<noteq> coord b"
      by (meson inj_onD)
    then have ne: "(x, y) \<noteq> (x', y')"
      by (simp add: ea eb coord_def)
    have pa: "0 \<le> x - x1" "0 \<le> y - y1"
      using assms(1) a by (auto simp: ea)
    have pb: "0 \<le> x' - x1" "0 \<le> y' - y1"
      using assms(1) b by (auto simp: eb)
    show ?thesis
      unfolding ea eb by (intro ext) (simp add: put_commute [OF pa pb ne])
  qed
  have "fold (put x1 y1) rs = fold (put x1 y1) rs'"
    using comm assms(3) [symmetric] by (rule fold_multiset_equiv)
  then show ?thesis by simp
qed

lemma set_batch_pixels:
  "(x, y) \<in> set (batch_pixels (x1, y1, x2, y2)) \<longleftrightarrow> x1 \<le> x \<and> x < x2 \<and> y1 \<le> y \<and> y < y2"
proof
  assume "(x, y) \<in> set (batch_pixels (x1, y1, x2, y2))"
  then obtain a b where "a \<in> {0..x2 - x1 - 1}" "b \<in> {0..y2 - y1 - 1}" "x = x1 + a" "y = y1 + b"
    by (auto simp: batch_pixels_def)
  then show "x1 \<le> x \<and> x < x2 \<and> y1 \<le> y \<and> y < y2"
    by simp
next
  assume a: "x1 \<le> x \<and> x < x2 \<and> y1 \<le> y \<and> y < y2"
  then have "(x - x1, y - y1) \<in> set (List.product [0..x2 - x1 - 1] [0..y2 - y1 - 1])"
    by simp
  then have "(x, y) \<in> (\<lambda>(a, b). (x1 + a, y1 + b)) ` set (List.product [0..x2 - x1 - 1] [0..y2 - y1 - 1])"
    by (rule rev_image_eqI) simp
  then show "(x, y) \<in> set (batch_pixels (x1, y1, x2, y2))"
    by (simp add: batch_pixels_def)
qed

lemma distinct_batch_pixels: "distinct (batch_pixels (x1, y1, x2, y2))"
proof -
  have "inj_on (\<lambda>(x, y). (x1 + x, y1 + y)) A" for A :: "(int \<times> int) set"
    by (auto simp: inj_on_def)
  moreover have "distinct (List.product [0..x2 - x1 - 1] [0..y2 - y1 - 1])"
    by (intro distinct_product) simp_all
  ultimately show ?thesis
    by (simp add: batch_pixels_def distinct_map)
qed


lemma gather_answers:
  assumes "\<forall>p \<in> set ps. svc (make_payload p) 0 = Level (lvl p)"
  shows "gather svc ps = (Inr (map (\<lambda>p. (fst p, snd p, lvl p)) ps),
                          map (\<lambda>p. Post (make_payload p)) ps)"
  using assms
proof (induction ps)
  case Nil
  show ?case by simp
next
  case (Cons p ps)
  obtain x y where p: "p = (x, y)" by (cases p)
  from Cons.prems have "svc (make_payload (x, y)) 0 = Level (lvl (x, y))"
    by (simp add: p)
  then have f: "fetch_pixel_level svc p = (Inr (x, y, lvl (x, y)), [Post (make_payload (x, y))])"
    unfolding p by (rule fetch_pixel_level_Level)
  from Cons have g: "gather svc ps = (Inr (map (\<lambda>p. (fst p, snd p, lvl p)) ps),
                          map (\<lambda>p. Post (make_payload p)) ps)"
    by simp
  show ?case
    by (simp add: f g) (simp add: p)
qed

lemma wf_zeros_array: "wf_array (zeros_array h w)"
  by (simp add: wf_array_def zeros_array_def)

lemma get_level_data_concurrent_answers:
  assumes "x1 \<le> x2" "y1 \<le> y2" "x2 - x1 \<le> 701" "y2 - y1 \<le> 701"
    and "\<forall>p \<in> set (batch_pixels (x1, y1, x2, y2)). svc (make_payload p) 0 = Level (lvl p)"
  shows "get_level_data_concurrent svc (x1, y1, x2, y2) =
     (Inr (fst (fill_in x1 y1 (map (\<lambda>p. (fst p, snd p, lvl p)) (batch_pixels (x1, y1, x2, y2)))
                  (zeros_array (x2 - x1) (y2 - y1)))),
      map (\<lambda>p. Post (make_payload p)) (batch_pixels (x1, y1, x2, y2))
      @ snd (fill_in x1 y1 (map (\<lambda>p. (fst p, snd p, lvl p)) (batch_pixels (x1, y1, x2, y2)))
                  (zeros_array (x2 - x1) (y2 - y1))))"
proof -
  have z: "np_zeros (x2 - x1) (y2 - y1) = Inr (zeros_array (x2 - x1) (y2 - y1))"
    using assms(1-4) by (intro np_zeros_small) simp_all
  have n: "ndindex (x2 - x1) (y2 - y1) = Inr (List.product [0..x2 - x1 - 1] [0..y2 - y1 - 1])"
    using assms(1-4) by (intro ndindex_small) simp_all
  have p: "map (\<lambda>(x, y). (x1 + x, y1 + y)) (List.product [0..x2 - x1 - 1] [0..y2 - y1 - 1])
      = batch_pixels (x1, y1, x2, y2)"
    by (simp add: batch_pixels_def)
  note g = gather_answers [where ps = "batch_pixels (x1, y1, x2, y2)" and svc = svc and lvl = lvl,
      OF assms(5)]
  show ?thesis
    unfolding get_level_data_concurrent_def prod.case Let_def z n sum.case p g
    by (simp add: split_beta)
qed

lemma results_facts:
  assumes "x1 \<le> x2" "y1 \<le> y2"
    and "\<forall>p \<in> set (batch_pixels (x1, y1, x2, y2)). fits (lvl p)"
  defines "rs \<equiv> map (\<lambda>p. (fst p, snd p, lvl p)) (batch_pixels (x1, y1, x2, y2))"
  shows "\<forall>r \<in> set rs. 0 \<le> fst r - x1 \<and> fst r - x1 < int (nrows (zeros_array (x2 - x1) (y2 - y1)))
           \<and> 0 \<le> fst (snd r) - y1 \<and> fst (snd r) - y1 < int (ncols (zeros_array (x2 - x1) (y2 - y1)))
           \<and> fits (snd (snd r))"
    and "distinct (map coord rs)"
proof -
  show "\<forall>r \<in> set rs. 0 \<le> fst r - x1 \<and> fst r - x1 < int (nrows (zeros_array (x2 - x1) (y2 - y1)))
           \<and> 0 \<le> fst (snd r) - y1 \<and> fst (snd r) - y1 < int (ncols (zeros_array (x2 - x1) (y2 - y1)))
           \<and> fits (snd (snd r))"
  proof
    fix r assume "r \<in> set rs"
    then obtain p where p: "p \<in> set (batch_pixels (x1, y1, x2, y2))" and r: "r = (fst p, snd p, lvl p)"
      unfolding rs_def by auto
    from p have "(fst p, snd p) \<in> set (batch_pixels (x1, y1, x2, y2))" by simp
    then have b: "x1 \<le> fst p \<and> fst p < x2 \<and> y1 \<le> snd p \<and> snd p < y2"
      by (simp only: set_batch_pixels)
    from p assms(3) have "fits (lvl p)" by blast
    with b show "0 \<le> fst r - x1 \<and> fst r - x1 < int (nrows (zeros_array (x2 - x1) (y2 - y1)))
           \<and> 0 \<le> fst (snd r) - y1 \<and> fst (snd r) - y1 < int (ncols (zeros_array (x2 - x1) (y2 - y1)))
           \<and> fits (snd (snd r))"
      by (simp add: r zeros_array_def)
  qed
  have "map coord rs = batch_pixels (x1, y1, x2, y2)"
    unfolding rs_def by (simp add: coord_def comp_def)
  then show "distinct (map coord rs)"
    by (simp add: distinct_batch_pixels)
qed

text \<open>
  Claim C5, as stated, says that the cell of a coordinate holds the level the service
  reported for it. For the valid sector \<open>(0, 0, 1, 1)\<close> and a service that reports the
  level \<open>2 ^ 63\<close>, the assignment raises \<^verbatim>\<open>OverflowError\<close>, the handler prints the
  problem, and the cell keeps its 0.
\<close>

theorem huge_level_not_stored:
  "fst (is_valid (0, 0, 1, 1)) = Inr True
   \<and> huge_level_service (make_payload (0, 0)) 0 = Level 9223372036854775808
   \<and> get_level_data_concurrent huge_level_service (0, 0, 1, 1)
       = (Inr \<lparr> nrows = 1, ncols = 1, rows = [[0]] \<rparr>,
          [Post (make_payload (0, 0)), PrintProblem 0 0 9223372036854775808])"
  by (simp add: is_valid_True_iff huge_level_service_def get_level_data_concurrent_def
        np_zeros_def ndindex_def nbytes_def intp_max_def fetch_pixel_level_Level setitem_def
        normalise_index_def)

text \<open>
  Claim C5, amended. For every valid sector whose requests are all answered with a level
  that fits a signed integer of 64 bits, \<^verbatim>\<open>get_level_data_concurrent\<close> returns an array
  of the shape of the sector that holds at \<open>(x - x1, y - y1)\<close> the level reported for
  \<open>(x, y)\<close>, for every coordinate of the sector; and filling the array in from any
  permutation of the fetched results gives the same array.
\<close>

theorem concurrent_fetch_places_levels:
  assumes valid: "fst (is_valid (x1, y1, x2, y2)) = Inr True"
    and answers: "\<forall>x y. x1 \<le> x \<and> x < x2 \<and> y1 \<le> y \<and> y < y2 \<longrightarrow>
         svc (make_payload (x, y)) 0 = Level (lvl (x, y))
         \<and> - (2 ^ 63) \<le> lvl (x, y) \<and> lvl (x, y) < 2 ^ 63"
  shows "\<exists>data t. get_level_data_concurrent svc (x1, y1, x2, y2) = (Inr data, t)
      \<and> nrows data = nat (x2 - x1) \<and> ncols data = nat (y2 - y1) \<and> wf_array data
      \<and> (\<forall>x y. x1 \<le> x \<and> x < x2 \<and> y1 \<le> y \<and> y < y2 \<longrightarrow>
            rows data ! nat (x - x1) ! nat (y - y1) = lvl (x, y))
      \<and> (\<forall>results.
            mset results = mset (map (\<lambda>p. (fst p, snd p, lvl p)) (batch_pixels (x1, y1, x2, y2)))
            \<longrightarrow> fst (fill_in x1 y1 results (zeros_array (x2 - x1) (y2 - y1))) = data)"
proof -
  let ?S = "(x1, y1, x2, y2)"
  let ?rs = "map (\<lambda>p. (fst p, snd p, lvl p)) (batch_pixels ?S)"
  let ?d0 = "zeros_array (x2 - x1) (y2 - y1)"
  let ?data = "fst (fill_in x1 y1 ?rs ?d0)"
  note b = valid_sector_bounds [OF valid]
  have le: "x1 \<le> x2" "y1 \<le> y2" using b by simp_all
  have small: "x2 - x1 \<le> 701" "y2 - y1 \<le> 701" using b by simp_all
  have per_pixel: "svc (make_payload p) 0 = Level (lvl p) \<and> fits (lvl p)"
    if "p \<in> set (batch_pixels ?S)" for p
  proof -
    obtain x y where p: "p = (x, y)" by (cases p)
    from that have "x1 \<le> x \<and> x < x2 \<and> y1 \<le> y \<and> y < y2"
      unfolding p by (simp only: set_batch_pixels)
    with answers show ?thesis
      unfolding p fits_def by blast
  qed
  then have a1: "\<forall>p \<in> set (batch_pixels ?S). svc (make_payload p) 0 = Level (lvl p)"
    and a2: "\<forall>p \<in> set (batch_pixels ?S). fits (lvl p)"
    by blast+
  note facts = results_facts [where lvl = lvl, OF le a2]
  have run: "get_level_data_concurrent svc ?S =
      (Inr ?data, map (\<lambda>p. Post (make_payload p)) (batch_pixels ?S) @ snd (fill_in x1 y1 ?rs ?d0))"
    by (rule get_level_data_concurrent_answers [where svc = svc and lvl = lvl, OF le small a1])
  have shape: "nrows ?data = nat (x2 - x1)" "ncols ?data = nat (y2 - y1)"
    by (simp_all add: fill_in_shape zeros_array_def)
  have wf: "wf_array ?data"
    by (intro fill_in_wf wf_zeros_array)
  have cells: "rows ?data ! nat (x - x1) ! nat (y - y1) = lvl (x, y)"
    if "x1 \<le> x \<and> x < x2 \<and> y1 \<le> y \<and> y < y2" for x y
  proof -
    from that have "(x, y) \<in> set (batch_pixels ?S)"
      by (simp only: set_batch_pixels)
    then have "(\<lambda>p. (fst p, snd p, lvl p)) (x, y) \<in> set ?rs"
      unfolding set_map by (rule imageI)
    then have mem: "(x, y, lvl (x, y)) \<in> set ?rs" by simp
    show ?thesis
      unfolding fill_in_fold
      by (rule fold_put_cell [OF wf_zeros_array facts(1) facts(2) mem])
  qed
  have perm: "fst (fill_in x1 y1 results ?d0) = ?data" if "mset results = mset ?rs" for results
  proof -
    have nonneg: "\<forall>r \<in> set ?rs. 0 \<le> fst r - x1 \<and> 0 \<le> fst (snd r) - y1"
      using facts(1) by blast
    show ?thesis
      unfolding fill_in_fold by (rule fold_put_permuted [OF nonneg facts(2) that])
  qed
  from run shape wf cells perm show ?thesis
    by blast
qed

theorem concurrent_fetch_places_levels_witness:
  "\<exists>data t. get_level_data_concurrent mock_service (0, 0, 2, 3) = (Inr data, t)
     \<and> nrows data = 2 \<and> ncols data = 3 \<and> rows data ! 1 ! 2 = 12"
proof -
  have v: "fst (is_valid (0, 0, 2, 3)) = Inr True"
    by (simp add: is_valid_True_iff)
  have a: "\<forall>x y. 0 \<le> x \<and> x < 2 \<and> 0 \<le> y \<and> y < 3 \<longrightarrow>
         mock_service (make_payload (x, y)) 0 = Level (mock_level (x, y))
         \<and> - (2 ^ 63) \<le> mock_level (x, y) \<and> mock_level (x, y) < 2 ^ 63"
    by (simp add: mock_service_def make_payload_def mock_level_def)
  from concurrent_fetch_places_levels [of 0 0 2 3 mock_service mock_level, OF v a]
  obtain data t where r: "get_level_data_concurrent mock_service (0, 0, 2, 3) = (Inr data, t)"
    and s: "nrows data = nat (2 - 0)" "ncols data = nat (3 - 0)"
    and c: "\<forall>x y. 0 \<le> x \<and> x < 2 \<and> 0 \<le> y \<and> y < 3 \<longrightarrow>
               rows data ! nat (x - 0) ! nat (y - 0) = mock_level (x, y)"
    by blast
  from c [rule_format, of 1 2] have "rows data ! 1 ! 2 = 12"
    by (simp add: mock_level_def)
  with r s show ?thesis
    by simp
qed


section \<open>The batches of the driver\<close>

lemma slice_bound_le: "slice_bound n i \<le> n"
  unfolding slice_bound_def by (cases "i < 0") auto

lemma set_columns_wf:
  assumes "set_columns data a b batch = Inr d" "wf_array data"
  shows "wf_array d \<and> nrows d = nrows data \<and> ncols d = ncols data"
proof -
  let ?lo = "slice_bound (ncols data) a" and ?hi = "slice_bound (ncols data) b"
  let ?row = "\<lambda>i. take ?lo (rows data ! i)
                   @ map (\<lambda>j. rows batch ! (if nrows batch = 1 then 0 else i)
                                           ! (if ncols batch = 1 then 0 else j))
                         [0..<?hi - ?lo]
                   @ drop (?lo + (?hi - ?lo)) (rows data ! i)"
  from assms(1) have d: "d = data\<lparr> rows := map ?row [0..<nrows data] \<rparr>"
    by (simp add: set_columns_def Let_def split: if_splits)
  have len: "length (?row i) = ncols data" if "i < nrows data" for i
  proof -
    from that assms(2) have "length (rows data ! i) = ncols data"
      by (simp add: wf_array_def)
    moreover have "?lo \<le> ncols data" "?lo + (?hi - ?lo) \<le> ncols data"
      using slice_bound_le [of "ncols data" a] slice_bound_le [of "ncols data" b] by simp_all
    ultimately show ?thesis by simp
  qed
  have "\<forall>r \<in> set (map ?row [0..<nrows data]). length r = ncols data"
    using len by (simp del: length_append length_take length_drop length_map)
  then show ?thesis
    unfolding d by (simp add: wf_array_def)
qed

lemma set_columns_fits:
  assumes "0 \<le> a" "a \<le> b" "b \<le> int (ncols data)"
    and "nrows batch = nrows data" "ncols batch = nat (b - a)"
  shows "\<exists>d. set_columns data a b batch = Inr d"
proof -
  have "slice_bound (ncols data) a = nat a" "slice_bound (ncols data) b = nat b"
    using assms(1-3) by (simp_all add: slice_bound_def)
  moreover have "nat b - nat a = nat (b - a)"
    using assms(1,2) by simp
  ultimately show ?thesis
    using assms(4,5) by (simp add: set_columns_def Let_def)
qed






text \<open>The number of batches \<open>\<lceil>w / k\<rceil>\<close>, for a positive width and a positive \<open>k\<close>.\<close>

lemma ceil_batches:
  assumes "0 < k" "0 < w"
  shows "1 \<le> \<lceil>real_of_int w / real_of_int k\<rceil>"
    and "w \<le> \<lceil>real_of_int w / real_of_int k\<rceil> * k"
    and "(\<lceil>real_of_int w / real_of_int k\<rceil> - 1) * k < w"
proof -
  let ?c = "\<lceil>real_of_int w / real_of_int k\<rceil>"
  have pos: "0 < real_of_int w / real_of_int k"
    using assms by simp
  then show "1 \<le> ?c"
    by (simp add: ceiling_le_iff [symmetric] less_ceiling_iff [symmetric] int_one_le_iff_zero_less)
  have kpos: "0 < real_of_int k"
    using assms(1) by simp
  have "real_of_int w \<le> real_of_int ?c * real_of_int k"
    unfolding pos_divide_le_eq [OF kpos, symmetric] by (rule le_of_int_ceiling)
  then have "real_of_int w \<le> real_of_int (?c * k)"
    by (simp only: of_int_mult)
  then show "w \<le> ?c * k"
    by (simp only: of_int_le_iff)
  have "real_of_int ?c - 1 < real_of_int w / real_of_int k"
    using ceiling_correct [of "real_of_int w / real_of_int k"] by (rule conjunct1)
  then have "real_of_int (?c - 1) < real_of_int w / real_of_int k"
    by (simp only: of_int_diff of_int_1)
  then have "real_of_int (?c - 1) * real_of_int k < real_of_int w"
    by (simp only: pos_less_divide_eq [OF kpos])
  then have "real_of_int ((?c - 1) * k) < real_of_int w"
    by (simp only: of_int_mult)
  then show "(?c - 1) * k < w"
    by (simp only: of_int_less_iff)
qed

lemma batch_start_in_range:
  assumes "0 < k" "0 < w" "b < nat \<lceil>real_of_int w / real_of_int k\<rceil>"
  shows "int b * k < w"
proof -
  let ?c = "\<lceil>real_of_int w / real_of_int k\<rceil>"
  from assms(3) have "int b \<le> ?c - 1" by linarith
  then have "int b * k \<le> (?c - 1) * k"
    using assms(1) by (intro mult_right_mono) simp_all
  also have "\<dots> < w"
    by (rule ceil_batches(3) [OF assms(1,2)])
  finally show ?thesis .
qed



lemma check_auth_True: "fst (check_auth hdrs) \<Longrightarrow> check_auth hdrs = (True, [])"
  by (simp add: check_auth_def split: if_splits)

lemma check_auth_False: "\<not> fst (check_auth hdrs) \<Longrightarrow> check_auth hdrs = (False, [PrintAuth])"
  by (simp add: check_auth_def split: if_splits)

text \<open>One pass of the loop over the batches.\<close>

lemma run_batches_Cons:
  "run_batches svc (x1, y1, x2, y2) k (b # bs) data =
     (case get_level_data_concurrent svc (batch_sector (x1, y1, x2, y2) k b) of
        (Inl e, t) \<Rightarrow> (Inl e, AsyncioRun (batch_sector (x1, y1, x2, y2) k b) # t)
      | (Inr data_batch, t) \<Rightarrow>
          (case set_columns data (int b * k) (min y2 (y1 + int b * k + k) - y1) data_batch of
             Inl e \<Rightarrow> (Inl e, AsyncioRun (batch_sector (x1, y1, x2, y2) k b) # t)
           | Inr data' \<Rightarrow>
               (fst (run_batches svc (x1, y1, x2, y2) k bs data'),
                AsyncioRun (batch_sector (x1, y1, x2, y2) k b) # t
                @ snd (run_batches svc (x1, y1, x2, y2) k bs data'))))"
  by (simp add: batch_sector_def Let_def split: prod.split sum.split)

text \<open>Whatever the batches answer, an array that the loop returns has the shape it had.\<close>

lemma run_batches_shape:
  assumes "wf_array data" "fst (run_batches svc (x1, y1, x2, y2) k bs data) = Inr d"
  shows "wf_array d \<and> nrows d = nrows data \<and> ncols d = ncols data"
  using assms
proof (induction bs arbitrary: data)
  case Nil
  then show ?case by simp
next
  case (Cons b bs)
  let ?sb = "batch_sector (x1, y1, x2, y2) k b"
  obtain res t where g: "get_level_data_concurrent svc ?sb = (res, t)"
    by (cases "get_level_data_concurrent svc ?sb")
  show ?case
  proof (cases res)
    case (Inl e)
    with Cons.prems(2) g show ?thesis
      by (simp add: run_batches_Cons del: run_batches.simps)
  next
    case (Inr data_batch)
    note db = this
    show ?thesis
    proof (cases "set_columns data (int b * k) (min y2 (y1 + int b * k + k) - y1) data_batch")
      case (Inl e)
      with Cons.prems(2) g db show ?thesis
        by (simp add: run_batches_Cons del: run_batches.simps)
    next
      case (Inr data')
      from set_columns_wf [OF Inr Cons.prems(1)]
      have w: "wf_array data'" and s: "nrows data' = nrows data" "ncols data' = ncols data"
        by simp_all
      from Cons.prems(2) g db Inr
      have "fst (run_batches svc (x1, y1, x2, y2) k bs data') = Inr d"
        by (simp add: run_batches_Cons del: run_batches.simps)
      from Cons.IH [OF w this] s show ?thesis
        by simp
    qed
  qed
qed

lemma batch_pixels_subset:
  assumes "0 \<le> k" "p \<in> set (batch_pixels (batch_sector (x1, y1, x2, y2) k b))"
  shows "p \<in> set (batch_pixels (x1, y1, x2, y2))"
proof -
  obtain x y where p: "p = (x, y)" by (cases p)
  from assms(2) have "x1 \<le> x \<and> x < x2 \<and> y1 + int b * k \<le> y \<and> y < min y2 (y1 + int b * k + k)"
    unfolding p batch_sector_def prod.case by (simp only: set_batch_pixels)
  moreover have "0 \<le> int b * k"
    using assms(1) by simp
  ultimately have "x1 \<le> x \<and> x < x2 \<and> y1 \<le> y \<and> y < y2"
    by linarith
  then show ?thesis
    unfolding p by (simp only: set_batch_pixels)
qed

text \<open>
  When every request is answered at the first attempt, every batch returns, its array
  fits its columns of \<open>data\<close>, and the loop goes through all the batches.
\<close>

lemma run_batches_answers:
  assumes "x1 \<le> x2" "0 \<le> k" "x2 - x1 \<le> 701" "y2 - y1 \<le> 701"
    and "\<forall>b \<in> set bs. y1 + int b * k \<le> y2"
    and "\<forall>p \<in> set (batch_pixels (x1, y1, x2, y2)). svc (make_payload p) 0 = Level (lvl p)"
    and "wf_array data" "nrows data = nat (x2 - x1)" "ncols data = nat (y2 - y1)"
  shows "\<exists>d. run_batches svc (x1, y1, x2, y2) k bs data
            = (Inr d, concat (map (\<lambda>b. AsyncioRun (batch_sector (x1, y1, x2, y2) k b)
                                      # snd (get_level_data_concurrent svc
                                               (batch_sector (x1, y1, x2, y2) k b))) bs))"
  using assms(5,7,8,9)
proof (induction bs arbitrary: data)
  case Nil
  show ?case by simp
next
  case (Cons b bs)
  let ?S = "(x1, y1, x2, y2)"
  let ?y1b = "y1 + int b * k" and ?y2b = "min y2 (y1 + int b * k + k)"
  let ?sb = "batch_sector ?S k b"
  have sb: "?sb = (x1, ?y1b, x2, ?y2b)"
    by (simp add: batch_sector_def)
  from Cons.prems(1) have in_range: "?y1b \<le> y2" and rest: "\<forall>b \<in> set bs. y1 + int b * k \<le> y2"
    by simp_all
  have nonneg: "0 \<le> int b * k"
    using assms(2) by simp
  have le: "?y1b \<le> ?y2b"
    using in_range assms(2) by linarith
  have small: "?y2b - ?y1b \<le> 701"
    using nonneg assms(4) by linarith
  have ans: "\<forall>p \<in> set (batch_pixels (x1, ?y1b, x2, ?y2b)). svc (make_payload p) 0 = Level (lvl p)"
    using assms(6) batch_pixels_subset [OF assms(2), of _ x1 y1 x2 y2 b] unfolding sb by blast
  let ?rs = "map (\<lambda>p. (fst p, snd p, lvl p)) (batch_pixels (x1, ?y1b, x2, ?y2b))"
  let ?db = "fst (fill_in x1 ?y1b ?rs (zeros_array (x2 - x1) (?y2b - ?y1b)))"
  have g: "get_level_data_concurrent svc ?sb
      = (Inr ?db, snd (get_level_data_concurrent svc ?sb))"
    unfolding sb
    using get_level_data_concurrent_answers [where svc = svc and lvl = lvl,
        OF assms(1) le assms(3) small ans]
    by simp
  have shape: "nrows ?db = nat (x2 - x1)" "ncols ?db = nat (?y2b - ?y1b)"
    by (simp_all add: fill_in_shape zeros_array_def)
  have "\<exists>d. set_columns data (int b * k) (?y2b - y1) ?db = Inr d"
  proof (rule set_columns_fits)
    show "0 \<le> int b * k" by (rule nonneg)
    show "int b * k \<le> ?y2b - y1" using le by linarith
    show "?y2b - y1 \<le> int (ncols data)" unfolding Cons.prems(4) by linarith
    show "nrows ?db = nrows data" unfolding Cons.prems(3) by (rule shape)
    have "?y2b - ?y1b = ?y2b - y1 - int b * k" by simp
    then show "ncols ?db = nat (?y2b - y1 - int b * k)"
      using shape(2) by (simp only:)
  qed
  then obtain data' where sc: "set_columns data (int b * k) (?y2b - y1) ?db = Inr data'" ..
  from set_columns_wf [OF sc Cons.prems(2)]
  have w: "wf_array data'" and s: "nrows data' = nat (x2 - x1)" "ncols data' = nat (y2 - y1)"
    using Cons.prems(3,4) by simp_all
  from Cons.IH [OF rest w s] obtain d where
    r: "run_batches svc ?S k bs data'
          = (Inr d, concat (map (\<lambda>b. AsyncioRun (batch_sector ?S k b)
                                    # snd (get_level_data_concurrent svc (batch_sector ?S k b))) bs))"
    ..
  have "run_batches svc ?S k (b # bs) data
      = (Inr d, concat (map (\<lambda>b. AsyncioRun (batch_sector ?S k b)
                                # snd (get_level_data_concurrent svc (batch_sector ?S k b))) (b # bs)))"
    unfolding run_batches_Cons by (subst g) (simp add: sc r)
  then show ?case ..
qed



text \<open>
  The driver on a valid sector, with the key filled in and every request answered at the
  first attempt: it returns an array, and its events are the announcement followed, batch
  after batch, by the start of the batch and the events of the batch.
\<close>

lemma get_level_data_answers:
  assumes valid: "fst (is_valid (x1, y1, x2, y2)) = Inr True"
    and auth: "fst (check_auth hdrs)"
    and answers: "\<forall>p \<in> set (batch_pixels (x1, y1, x2, y2)).
                    svc (make_payload p) 0 = Level (lvl p)"
  shows "\<exists>d. get_level_data hdrs svc (x1, y1, x2, y2)
      = (Inr d,
         PrintSending ((x2 - x1) * (y2 - y1))
           \<lceil>real_of_int (y2 - y1) / real_of_int (max_conc_req div (x2 - x1))\<rceil>
         # concat (map (\<lambda>b. AsyncioRun (batch_sector (x1, y1, x2, y2) (max_conc_req div (x2 - x1)) b)
                          # snd (get_level_data_concurrent svc
                                   (batch_sector (x1, y1, x2, y2) (max_conc_req div (x2 - x1)) b)))
             [0..<nat \<lceil>real_of_int (y2 - y1) / real_of_int (max_conc_req div (x2 - x1))\<rceil>]))"
proof -
  let ?S = "(x1, y1, x2, y2)"
  let ?k = "max_conc_req div (x2 - x1)"
  let ?n = "nat \<lceil>real_of_int (y2 - y1) / real_of_int ?k\<rceil>"
  note b = valid_sector_bounds [OF valid]
  have k: "0 < ?k"
    using num_col_batch_ge [of "x2 - x1"] b by simp
  have w: "0 < y2 - y1"
    using b by simp
  have starts: "\<forall>b \<in> set [0..<?n]. y1 + int b * ?k \<le> y2"
  proof
    fix b assume "b \<in> set [0..<?n]"
    then have "b < ?n" by simp
    from batch_start_in_range [OF k w this] show "y1 + int b * ?k \<le> y2"
      by linarith
  qed
  have "\<exists>d. run_batches svc ?S ?k [0..<?n] (zeros_array (x2 - x1) (y2 - y1))
            = (Inr d, concat (map (\<lambda>b. AsyncioRun (batch_sector ?S ?k b)
                                      # snd (get_level_data_concurrent svc (batch_sector ?S ?k b)))
                               [0..<?n]))"
  proof (rule run_batches_answers [where lvl = lvl])
    show "x1 \<le> x2" "x2 - x1 \<le> 701" "y2 - y1 \<le> 701" using b by simp_all
    show "0 \<le> ?k" using k by simp
    show "\<forall>b \<in> set [0..<?n]. y1 + int b * ?k \<le> y2" by (rule starts)
    show "\<forall>p \<in> set (batch_pixels ?S). svc (make_payload p) 0 = Level (lvl p)" by (rule answers)
    show "wf_array (zeros_array (x2 - x1) (y2 - y1))" by (rule wf_zeros_array)
    show "nrows (zeros_array (x2 - x1) (y2 - y1)) = nat (x2 - x1)"
      and "ncols (zeros_array (x2 - x1) (y2 - y1)) = nat (y2 - y1)"
      by (simp_all add: zeros_array_def)
  qed
  then obtain d where
    r: "run_batches svc ?S ?k [0..<?n] (zeros_array (x2 - x1) (y2 - y1))
            = (Inr d, concat (map (\<lambda>b. AsyncioRun (batch_sector ?S ?k b)
                                      # snd (get_level_data_concurrent svc (batch_sector ?S ?k b)))
                               [0..<?n]))"
    ..
  show ?thesis
    unfolding get_level_data_valid [OF valid] check_auth_True [OF auth] prod.case bool.case r
      append_Nil
    by blast
qed

text \<open>
  On a valid sector, an array that \<^verbatim>\<open>get_level_data\<close> returns has the shape of the
  sector, whatever the service answers; and \<^verbatim>\<open>get_level_data\<close> returns an array when
  the key is missing, and when every request is answered at the first attempt.
\<close>

lemma get_level_data_shape:
  assumes valid: "fst (is_valid (x1, y1, x2, y2)) = Inr True"
    and ret: "fst (get_level_data hdrs svc (x1, y1, x2, y2)) = Inr data"
  shows "nrows data = nat (x2 - x1) \<and> ncols data = nat (y2 - y1) \<and> wf_array data"
proof (cases "fst (check_auth hdrs)")
  case False
  from ret have "data = zeros_array (x2 - x1) (y2 - y1)"
    unfolding get_level_data_valid [OF valid] check_auth_False [OF False] by simp
  then show ?thesis
    by (simp add: wf_zeros_array) (simp add: zeros_array_def)
next
  case True
  let ?k = "max_conc_req div (x2 - x1)"
  let ?bs = "[0..<nat \<lceil>real_of_int (y2 - y1) / real_of_int ?k\<rceil>]"
  from ret have "fst (run_batches svc (x1, y1, x2, y2) ?k ?bs (zeros_array (x2 - x1) (y2 - y1)))
      = Inr data"
    unfolding get_level_data_valid [OF valid] check_auth_True [OF True]
    by (simp add: split_beta)
  from run_batches_shape [OF wf_zeros_array this] show ?thesis
    by (simp add: zeros_array_def)
qed

lemma get_level_data_returns:
  assumes valid: "fst (is_valid (x1, y1, x2, y2)) = Inr True"
    and answers: "fst (check_auth hdrs) \<longrightarrow>
       (\<forall>x y. x1 \<le> x \<and> x < x2 \<and> y1 \<le> y \<and> y < y2 \<longrightarrow>
          (\<exists>l. svc (make_payload (x, y)) 0 = Level l))"
  shows "\<exists>data t. get_level_data hdrs svc (x1, y1, x2, y2) = (Inr data, t)
           \<and> nrows data = nat (x2 - x1) \<and> ncols data = nat (y2 - y1) \<and> wf_array data"
proof -
  have "\<exists>data t. get_level_data hdrs svc (x1, y1, x2, y2) = (Inr data, t)"
  proof (cases "fst (check_auth hdrs)")
    case False
    show ?thesis
      unfolding get_level_data_valid [OF valid] check_auth_False [OF False] by simp
  next
    case True
    define lvl where "lvl p = (case svc (make_payload p) 0 of Level l \<Rightarrow> l | Fails e \<Rightarrow> 0)" for p
    have "\<forall>p \<in> set (batch_pixels (x1, y1, x2, y2)). svc (make_payload p) 0 = Level (lvl p)"
    proof
      fix p assume p: "p \<in> set (batch_pixels (x1, y1, x2, y2))"
      obtain x y where xy: "p = (x, y)" by (cases p)
      from p have "x1 \<le> x \<and> x < x2 \<and> y1 \<le> y \<and> y < y2"
        unfolding xy by (simp only: set_batch_pixels)
      with answers True obtain l where "svc (make_payload (x, y)) 0 = Level l"
        by blast
      then show "svc (make_payload p) 0 = Level (lvl p)"
        by (simp add: xy lvl_def)
    qed
    from get_level_data_answers [where svc = svc and lvl = lvl, OF valid True this]
    show ?thesis
      by blast
  qed
  then obtain data t where r: "get_level_data hdrs svc (x1, y1, x2, y2) = (Inr data, t)"
    by blast
  then have "fst (get_level_data hdrs svc (x1, y1, x2, y2)) = Inr data"
    by simp
  from get_level_data_shape [OF valid this] r show ?thesis
    by blast
qed

text \<open>
  Claim C2 says that for every valid sector \<^verbatim>\<open>get_level_data\<close> returns a grid of shape
  \<open>(x2 - x1, y2 - y1)\<close>. The shape is right whenever a grid is returned, and one is
  returned when the key is missing and when every request is answered at the first
  attempt (lemmas \<open>get_level_data_shape\<close> and \<open>get_level_data_returns\<close>). But a request
  that fails once is not retried: the \<^verbatim>\<open>NameError\<close> of \<^verbatim>\<open>time.sleep\<close> (claim C1)
  leaves \<^verbatim>\<open>fetch_pixel_level\<close>, \<^verbatim>\<open>asyncio.gather\<close>, \<^verbatim>\<open>asyncio.run\<close> and the driver. For
  the valid sector \<open>(0, 0, 2, 3)\<close>, the key filled in and a service whose first response to
  a request is an error and whose second is the level 7, the driver announces its 6
  requests, starts its only batch, and the failed request makes it raise: no grid is
  returned.
\<close>

theorem get_level_data_aborts_on_failed_request:
  "fst (is_valid (0, 0, 2, 3)) = Inr True
   \<and> fst (check_auth with_token)
   \<and> fst (get_level_data with_token (flaky 1 7) (0, 0, 2, 3)) = Inl (NameError ''time'')
   \<and> batches_run (snd (get_level_data with_token (flaky 1 7) (0, 0, 2, 3))) = [(0, 0, 2, 3)]"
proof -
  define svc where "svc = flaky 1 7"
  have v: "fst (is_valid (0, 0, 2, 3)) = Inr True"
    by (simp add: is_valid_True_iff)
  have c: "check_auth with_token = (True, [])"
    by (simp add: check_auth_def with_token_def)
  have "svc (make_payload (0, 0)) 0 = Fails ''timeout''"
    by (simp add: svc_def flaky_def)
  then have f: "fetch_pixel_level svc (0, 0)
      = (Inl (NameError ''time''), [Post (make_payload (0, 0))])"
    by (rule fetch_pixel_level_Fails)
  have p: "List.product [0..1] [0..2::int] = [(0, 0), (0, 1), (0, 2), (1, 0), (1, 1), (1, 2)]"
    by (simp add: upto.simps)
  have g: "get_level_data_concurrent svc (0, 0, 2, 3)
      = (Inl (NameError ''time''), [Post (make_payload (0, 0))])"
    by (simp add: get_level_data_concurrent_def np_zeros_def ndindex_def nbytes_def intp_max_def
          p f)
  have r: "run_batches svc (0, 0, 2, 3) 5000 [0] (zeros_array 2 3)
      = (Inl (NameError ''time''), [AsyncioRun (0, 0, 2, 3), Post (make_payload (0, 0))])"
    by (simp add: g del: One_nat_def)
  have "get_level_data with_token svc (0, 0, 2, 3)
       = (Inl (NameError ''time''),
          [PrintSending 6 1, AsyncioRun (0, 0, 2, 3), Post (make_payload (0, 0))])"
    by (simp add: get_level_data_valid [OF v] c max_conc_req_def r del: run_batches.simps)
  with v c show ?thesis
    unfolding svc_def by simp
qed





end
